theory Spec2Isabelle
  imports Main "HOL-Library.Sublist" "HOL-Library.Multiset"
begin

section \<open>The Go library functions the package calls\<close>

text \<open>
  Strings are byte lists. The queries of interest are ASCII, so one \<open>char\<close> is one rune
  (the width that \<open>utf8.DecodeRuneInString\<close> reports for a non-empty rest is 1).
\<close>

subsection \<open>Package regexp: the patterns and leftmost-first matching\<close>

text \<open>
  The character classes that occur in the package's patterns: \<open>\s\<close> (RE2's
  \<open>[\t\n\f\r ]\<close>), \<open>\d\<close>, \<open>[^&$]\<close> and \<open>[^']\<close>.
\<close>

datatype cclass = Space | Digit | NotAmpDollar | NotQuote

fun in_class :: "cclass \<Rightarrow> char \<Rightarrow> bool" where
  "in_class Space x = (x \<in> set [CHR 0x09, CHR 0x0A, CHR 0x0C, CHR 0x0D, CHR '' ''])"
| "in_class Digit x = (x \<in> set ''0123456789'')"
| "in_class NotAmpDollar x = (x \<noteq> CHR ''&'' \<and> x \<noteq> CHR ''$'')"
| "in_class NotQuote x = (x \<noteq> CHR 0x27)"

text \<open>
  The syntax tree of a pattern. \<open>Grp n r\<close> is the \<open>n\<close>-th capturing group;
  \<open>x+\<close> is \<open>xx*\<close>.
\<close>

datatype regex =
    Lit string
  | Cls cclass
  | Seq regex regex
  | Alt regex regex
  | Star regex
  | Grp nat regex

abbreviation Plus :: "regex \<Rightarrow> regex" where
  "Plus r \<equiv> Seq r (Star r)"

text \<open>
  The captures of a match: the groups that took part, each with its text, the latest
  first (a group inside a star keeps the text of its last iteration).
\<close>

type_synonym caps = "(nat \<times> string) list"

text \<open>
  Go's \<open>regexp\<close> returns, among the matches that begin leftmost, the one a backtracking
  engine finds first. \<open>backtrack r (s, c)\<close> lists, in the order a backtracking engine tries
  them, the ways \<open>r\<close> matches a prefix of \<open>s\<close>: each as the rest of the input and the
  captures after it. An alternation tries its left branch first, a star is greedy. An
  iteration of a star that consumes nothing is not repeated (no star in the package's
  patterns has a body that matches the empty string).
\<close>

function backtrack :: "regex \<Rightarrow> string \<times> caps \<Rightarrow> (string \<times> caps) list" where
  "backtrack (Lit w) (s, c) = (if prefix w s then [(drop (length w) s, c)] else [])"
| "backtrack (Cls k) (s, c) =
     (case s of [] \<Rightarrow> [] | x # xs \<Rightarrow> if in_class k x then [(xs, c)] else [])"
| "backtrack (Seq a b) st = concat (map (backtrack b) (backtrack a st))"
| "backtrack (Alt a b) st = backtrack a st @ backtrack b st"
| "backtrack (Star a) st =
     concat (map (\<lambda>st'. if length (fst st') < length (fst st) then backtrack (Star a) st' else [])
                 (backtrack a st)) @ [st]"
| "backtrack (Grp n a) (s, c) =
     map (\<lambda>(s', c'). (s', (n, take (length s - length s') s) # c')) (backtrack a (s, c))"
  by pat_completeness auto
termination
  by (relation "inv_image (less_than <*lex*> less_than) (\<lambda>(r, st). (size r, length (fst st)))")
    auto

declare backtrack.simps(5) [simp del]

text \<open>The alternation \<open>w1|w2|...\<close> that \<open>strings.Join(ws, "|")\<close> writes.\<close>

fun alts :: "string list \<Rightarrow> regex" where
  "alts [] = Lit []"
| "alts [w] = Lit w"
| "alts (w # ws) = Alt (Lit w) (alts ws)"

text \<open>
  \<open>doExecute re s pos\<close>: the leftmost match at or after byte \<open>pos\<close>, as (start, end,
  captures), or \<open>None\<close>.
\<close>

function doExecute :: "regex \<Rightarrow> string \<Rightarrow> nat \<Rightarrow> (nat \<times> nat \<times> caps) option" where
  "doExecute re s pos =
     (if length s < pos then None
      else (case backtrack re (drop pos s, []) of
              (rest, c) # _ \<Rightarrow> Some (pos, length s - length rest, c)
            | [] \<Rightarrow> if pos < length s then doExecute re s (Suc pos) else None))"
  by pat_completeness auto
termination
  by (relation "measure (\<lambda>(re, s, pos). length s - pos)") auto

declare doExecute.simps [simp del]

lemma backtrack_suffix:
  "st' \<in> set (backtrack r st) \<Longrightarrow> suffix (fst st') (fst st)"
proof (induction r st arbitrary: st' rule: backtrack.induct)
  case (1 w s c)
  then show ?case by (simp add: suffix_drop split: if_splits)
next
  case (2 k s c)
  then show ?case by (cases s) (simp_all add: suffix_Cons split: if_splits)
next
  case (3 a b st)
  from 3(3) obtain mid where "mid \<in> set (backtrack a st)" "st' \<in> set (backtrack b mid)" by auto
  with 3(1,2) show ?case using suffix_order.trans by blast
next
  case (4 a b st)
  from 4(3) have "st' \<in> set (backtrack a st) \<or> st' \<in> set (backtrack b st)" by simp
  with 4(1,2) show ?case by blast
next
  case (5 a st)
  from 5(3) consider "st' = st"
    | mid where "mid \<in> set (backtrack a st)" "length (fst mid) < length (fst st)"
        "st' \<in> set (backtrack (Star a) mid)"
    by (subst (asm) backtrack.simps(5)) (auto split: if_splits)
  then show ?case
  proof cases
    case 1
    then show ?thesis by simp
  next
    case 2
    from 5(1)[OF 2(1)] 5(2)[OF 2(1,2,3)] show ?thesis using suffix_order.trans by blast
  qed
next
  case (6 n a s c)
  from 6(2) obtain s' c' where "(s', c') \<in> set (backtrack a (s, c))" "fst st' = s'" by auto
  with 6(1) show ?case by fastforce
qed

lemma doExecute_bounds:
  "doExecute re s pos = Some (a0, a1, c) \<Longrightarrow> pos \<le> a0 \<and> a0 \<le> a1 \<and> a1 \<le> length s"
proof (induction re s pos rule: doExecute.induct)
  case (1 re s pos)
  have le: "\<not> length s < pos"
    using 1(2) by (subst (asm) doExecute.simps) (simp split: if_splits)
  show ?case
  proof (cases "backtrack re (drop pos s, [])")
    case Nil
    then have "pos < length s" "doExecute re s (Suc pos) = Some (a0, a1, c)"
      using 1(2) le by (subst (asm) doExecute.simps, simp split: if_splits)+
    with 1(1)[OF le Nil] show ?thesis by simp
  next
    case (Cons x xs)
    obtain rest c' where x: "x = (rest, c')" by (cases x)
    have "x \<in> set (backtrack re (drop pos s, []))" using Cons by simp
    then have "suffix rest (drop pos s)" using backtrack_suffix x by fastforce
    then have "length rest \<le> length s - pos" using suffix_length_le by fastforce
    moreover have "a0 = pos" "a1 = length s - length rest"
      using 1(2) le Cons x by (subst (asm) doExecute.simps, simp)+
    ultimately show ?thesis using le by simp
  qed
qed

text \<open>
  \<open>Regexp.replaceAll\<close>, the loop behind \<open>ReplaceAllLiteralString(src, repl)\<close>:
  \<^verbatim>\<open>
  for searchPos <= endPos {
      a := re.doExecute(nil, bsrc, src, searchPos, nmatch, dstCap[:0])
      if len(a) == 0 { break }
      buf = append(buf, src[lastMatchEnd:a[0]]...)
      if a[1] > lastMatchEnd || a[0] == 0 { buf = repl(buf, a) }
      lastMatchEnd = a[1]
      width = utf8.DecodeRuneInString(src[searchPos:])
      if searchPos+width > a[1] { searchPos += width }
      else if searchPos+1 > a[1] { searchPos++ }
      else { searchPos = a[1] }
  }
  buf = append(buf, src[lastMatchEnd:]...)
  \<close>
\<close>

function replaceAll :: "regex \<Rightarrow> string \<Rightarrow> string \<Rightarrow> nat \<Rightarrow> nat \<Rightarrow> string \<Rightarrow> string" where
  "replaceAll re src repl lastMatchEnd searchPos buf =
     (if searchPos \<le> length src then
        (case doExecute re src searchPos of
           None \<Rightarrow> buf @ drop lastMatchEnd src
         | Some (a0, a1, c) \<Rightarrow>
             let buf1 = buf @ take (a0 - lastMatchEnd) (drop lastMatchEnd src);
                 buf2 = (if a1 > lastMatchEnd \<or> a0 = 0 then buf1 @ repl else buf1);
                 width = (if searchPos < length src then 1 else 0);
                 searchPos' = (if searchPos + width > a1 then searchPos + width
                               else if searchPos + 1 > a1 then searchPos + 1
                               else a1)
             in replaceAll re src repl a1 searchPos' buf2)
      else buf @ drop lastMatchEnd src)"
  by pat_completeness auto
termination
  by (relation "measure (\<lambda>(re, src, repl, lastMatchEnd, searchPos, buf). Suc (length src) - searchPos)")
    (auto dest!: doExecute_bounds)

declare replaceAll.simps [simp del]

definition ReplaceAllLiteralString :: "regex \<Rightarrow> string \<Rightarrow> string \<Rightarrow> string" where
  "ReplaceAllLiteralString re src repl = replaceAll re src repl 0 0 []"

text \<open>
  \<open>Regexp.allMatches\<close>, the loop behind \<open>FindAllStringSubmatch(s, -1)\<close>; each match is
  (start, end, captures):
  \<^verbatim>\<open>
  for pos, i, prevMatchEnd := 0, 0, -1; i < n && pos <= end; {
      matches := re.doExecute(nil, b, s, pos, re.prog.NumCap, nil)
      if len(matches) == 0 { break }
      accept := true
      if matches[1] == pos {
          if matches[0] == prevMatchEnd { accept = false }
          if width > 0 { pos += width } else { pos = end + 1 }
      } else { pos = matches[1] }
      prevMatchEnd = matches[1]
      if accept { deliver(re.pad(matches)); i++ }
  }
  \<close>
  With \<open>n = -1\<close> the bound on \<open>i\<close> is \<open>len(s) + 1\<close>, which the loop cannot reach.
\<close>

function allMatches :: "regex \<Rightarrow> string \<Rightarrow> nat \<Rightarrow> int \<Rightarrow> (nat \<times> nat \<times> caps) list" where
  "allMatches re s pos prevMatchEnd =
     (if pos \<le> length s then
        (case doExecute re s pos of
           None \<Rightarrow> []
         | Some (a0, a1, c) \<Rightarrow>
             let accept = \<not> (a1 = pos \<and> int a0 = prevMatchEnd);
                 pos' = (if a1 = pos then (if pos < length s then pos + 1 else length s + 1)
                         else a1);
                 rest = allMatches re s pos' (int a1)
             in if accept then (a0, a1, c) # rest else rest)
      else [])"
  by pat_completeness auto
termination
  by (relation "measure (\<lambda>(re, s, pos, prevMatchEnd). Suc (length s) - pos)")
    (auto dest!: doExecute_bounds)

declare allMatches.simps [simp del]

definition FindAllStringSubmatch :: "regex \<Rightarrow> string \<Rightarrow> (nat \<times> nat \<times> caps) list" where
  "FindAllStringSubmatch re s = allMatches re s 0 (- 1)"

text \<open>\<open>match[i]\<close>: the text of group \<open>i\<close>, the empty string for a group that took no part.\<close>

definition submatch :: "caps \<Rightarrow> nat \<Rightarrow> string" where
  "submatch c i = (case map_of c i of None \<Rightarrow> [] | Some w \<Rightarrow> w)"

subsection \<open>Packages strings, strconv and fmt; map lookups\<close>

text \<open>\<open>unicode.IsSpace\<close> on ASCII: \<open>\t \n \v \f \r\<close> and the space.\<close>

definition isSpace :: "char \<Rightarrow> bool" where
  "isSpace x = (x \<in> set [CHR 0x09, CHR 0x0A, CHR 0x0B, CHR 0x0C, CHR 0x0D, CHR '' ''])"

definition TrimSpace :: "string \<Rightarrow> string" where
  "TrimSpace s = rev (dropWhile isSpace (rev (dropWhile isSpace s)))"

text \<open>
  \<open>strings.Replace(s, old, new, -1)\<close>: every non-overlapping occurrence of \<open>old\<close>, from
  the left; an empty \<open>old\<close> matches before every rune and at the end.
\<close>

function replace_from :: "string \<Rightarrow> string \<Rightarrow> string \<Rightarrow> string" where
  "replace_from s old new =
     (if old = [] \<or> s = [] then s
      else if prefix old s then new @ replace_from (drop (length old) s) old new
      else hd s # replace_from (tl s) old new)"
  by pat_completeness auto
termination
  by (relation "measure (\<lambda>(s, old, new). length s)") (simp, simp add: neq_Nil_conv, clarsimp)

declare replace_from.simps [simp del]

definition Replace :: "string \<Rightarrow> string \<Rightarrow> string \<Rightarrow> string" where
  "Replace s old new =
     (if old = [] then new @ concat (map (\<lambda>x. x # new) s) else replace_from s old new)"

text \<open>
  \<open>strconv.Atoi\<close> with a 64-bit \<open>int\<close>: an optional sign, then decimal digits only; a
  value outside the range of \<open>int\<close> is an error.
\<close>

datatype NumError = ErrSyntax | ErrRange

definition digit_val :: "char \<Rightarrow> int" where
  "digit_val x = int (of_char x) - 48"

definition decimal :: "string \<Rightarrow> int" where
  "decimal ds = foldl (\<lambda>n x. 10 * n + digit_val x) 0 ds"

definition Atoi :: "string \<Rightarrow> NumError + int" where
  "Atoi s =
     (let (neg, ds) = (case s of
                         x # r \<Rightarrow> if x = CHR ''-'' then (True, r)
                                  else if x = CHR ''+'' then (False, r) else (False, s)
                       | [] \<Rightarrow> (False, s))
      in if ds = [] \<or> \<not> list_all (in_class Digit) ds then Inl ErrSyntax
         else let v = (if neg then - decimal ds else decimal ds)
              in if v < - (2 ^ 63) \<or> 2 ^ 63 - 1 < v then Inl ErrRange else Inr v)"

text \<open>\<open>%v\<close> of an \<open>int\<close>: its decimal digits, after a minus sign when negative.\<close>

function digits :: "nat \<Rightarrow> string" where
  "digits n = (if n < 10 then [char_of (48 + n)] else digits (n div 10) @ [char_of (48 + n mod 10)])"
  by pat_completeness auto
termination
  by (relation "measure id") auto

declare digits.simps [simp del]

definition Itoa :: "int \<Rightarrow> string" where
  "Itoa i = (if i < 0 then CHR ''-'' # digits (nat (- i)) else digits (nat i))"

text \<open>\<open>m[k]\<close> on a \<open>map[string]string\<close>: the empty string for a missing key.\<close>

definition index :: "(string \<rightharpoonup> string) \<Rightarrow> string \<Rightarrow> string" where
  "index m k = (case m k of None \<Rightarrow> [] | Some v \<Rightarrow> v)"

text \<open>
  Go leaves the order in which \<open>range\<close> visits a map unspecified, and it may differ from one
  loop to the next. A loop over a map is therefore modelled with the list of the map's
  entries in the order that loop visits them: \<open>visits m xs\<close>.
\<close>

definition visits :: "(string \<rightharpoonup> string) \<Rightarrow> (string \<times> string) list \<Rightarrow> bool" where
  "visits m xs = (distinct (map fst xs) \<and> map_of xs = m)"

section \<open>The package\<close>

subsection \<open>Data model\<close>

definition filter_opt :: string where "filter_opt = ''$filter''"
definition orderBy_opt :: string where "orderBy_opt = ''$orderby''"
definition top_opt :: string where "top_opt = ''$top''"
definition skip_opt :: string where "skip_opt = ''$skip''"

text \<open>
  The errors the package returns, by kind: \<open>getStructFieldData\<close>'s "input value must be
  struct" and its wrapping for a nested struct, \<open>ErrInvalidQuery\<close> (wrapped with the
  pattern's text, which is left out), and the wrapped \<open>strconv\<close> errors of \<open>$skip\<close> and
  \<open>$top\<close>. A nil pointer dereference is a panic, not an error value.
\<close>

datatype error =
    ErrNotStruct
  | ErrNestedStruct error
  | ErrInvalidQuery
  | ErrSkip NumError
  | ErrTop NumError

datatype panic = NilPointerDereference

text \<open>
  A \<open>*FilterNode\<close> is \<open>None\<close> (nil) or \<open>Some\<close> node. Every node of a chain is allocated
  by \<open>parseFilter\<close> for that chain alone, so the chain is a value.
\<close>

datatype FilterNode =
  FilterNode (Field: string) (Operator: string) (Conjunction: string) (Value: string)
    (Next: "FilterNode option")

record Filter =
  Head :: "FilterNode option"

record DataFilter =
  Filter :: "Filter option"
  OrderBy :: "string option"
  Top :: "int option"
  Skip :: "int option"

type_synonym fieldData = "string \<rightharpoonup> string"

subsection \<open>Filter.Insert\<close>

text \<open>The loop \<open>for node.Next != nil { node = node.Next }\<close> and the store \<open>node.Next = new\<close>.\<close>

fun link_last :: "FilterNode \<Rightarrow> FilterNode \<Rightarrow> FilterNode" where
  "link_last (FilterNode f op c v None) new = FilterNode f op c v (Some new)"
| "link_last (FilterNode f op c v (Some node)) new = FilterNode f op c v (Some (link_last node new))"

definition Insert :: "Filter \<Rightarrow> FilterNode \<Rightarrow> Filter" where
  "Insert f new =
     (case Head f of
        None \<Rightarrow> f\<lparr>Head := Some new\<rparr>
      | Some node \<Rightarrow> f\<lparr>Head := Some (link_last node new)\<rparr>)"

subsection \<open>getStructFieldData\<close>

text \<open>
  What reflection sees of the \<open>src\<close> argument: a struct with its fields (name, value of
  the \<open>sql\<close> tag, the empty string without one, and the field's value), a pointer (nil or
  to a value), or a value of any other kind. Field names start with an ASCII letter.
\<close>

datatype goval =
    Struct "(string \<times> string \<times> goval) list"
  | Pointer "goval option"
  | Other

definition lower_first :: "string \<Rightarrow> bool" where
  "lower_first fieldName =
     (case fieldName of [] \<Rightarrow> False
      | x # _ \<Rightarrow> (97::nat) \<le> of_char x \<and> of_char x \<le> (122::nat))"

fun getStructFieldData :: "goval \<Rightarrow> fieldData \<times> error option"
  and struct_fields :: "(string \<times> string \<times> goval) list \<Rightarrow> fieldData \<Rightarrow> fieldData \<times> error option"
where
  "getStructFieldData (Struct fs) = struct_fields fs Map.empty"
| "getStructFieldData (Pointer (Some (Struct fs))) = struct_fields fs Map.empty"
| "getStructFieldData (Pointer (Some (Pointer p))) = (Map.empty, Some ErrNotStruct)"
| "getStructFieldData (Pointer (Some Other)) = (Map.empty, Some ErrNotStruct)"
| "getStructFieldData (Pointer None) = (Map.empty, Some ErrNotStruct)"
| "getStructFieldData Other = (Map.empty, Some ErrNotStruct)"
| "struct_fields [] res = (res, None)"
| "struct_fields ((fieldName, tagValue, fieldValue) # rest) res =
     (if lower_first fieldName then struct_fields rest res
      else if tagValue = [] then struct_fields rest res
      else
        (case fieldValue of
           Struct fs \<Rightarrow>
             (case getStructFieldData (Struct fs) of
                (nested, Some err) \<Rightarrow> (Map.empty, Some (ErrNestedStruct err))
              | (nested, None) \<Rightarrow> struct_fields rest (res(fieldName \<mapsto> tagValue) ++ nested))
         | Pointer p \<Rightarrow> struct_fields rest (res(fieldName \<mapsto> tagValue))
         | Other \<Rightarrow> struct_fields rest (res(fieldName \<mapsto> tagValue))))"

subsection \<open>parseQueryOption\<close>

text \<open>The pattern \<open>(?P<option>\%s=)(?P<value>[^&$]*)\<close> for an option \<open>$name\<close>.\<close>

definition option_pattern :: "string \<Rightarrow> regex" where
  "option_pattern opt = Seq (Grp 1 (Lit (opt @ ''=''))) (Grp 2 (Star (Cls NotAmpDollar)))"

definition parseQueryOption :: "string \<Rightarrow> string \<Rightarrow> string" where
  "parseQueryOption query opt =
     (case doExecute (option_pattern opt) query 0 of
        Some (a0, a1, c) \<Rightarrow> submatch c 2
      | None \<Rightarrow> [])"

subsection \<open>parseSkip and parseTop\<close>

definition parseSkip :: "string \<Rightarrow> error + int option" where
  "parseSkip url =
     (let query = parseQueryOption url skip_opt in
      if query = [] then Inr None
      else (case Atoi query of Inl err \<Rightarrow> Inl (ErrSkip err) | Inr val \<Rightarrow> Inr (Some val)))"

definition parseTop :: "string \<Rightarrow> error + int option" where
  "parseTop url =
     (let query = parseQueryOption url top_opt in
      if query = [] then Inr None
      else (case Atoi query of Inl err \<Rightarrow> Inl (ErrTop err) | Inr val \<Rightarrow> Inr (Some val)))"

subsection \<open>The order of the loops over maps\<close>

text \<open>
  One list per \<open>range\<close> loop over a map, in the order of the source: the three loops of
  \<open>parseFilter\<close> that build the pattern, the two of \<open>parseOrderBy\<close> that build the
  pattern, and its two replacement loops.
\<close>

record iteration =
  filter_fields :: "(string \<times> string) list"
  filter_opers :: "(string \<times> string) list"
  filter_conjs :: "(string \<times> string) list"
  order_fields :: "(string \<times> string) list"
  order_sorts :: "(string \<times> string) list"
  replace_fields :: "(string \<times> string) list"
  replace_sorts :: "(string \<times> string) list"

definition operMap :: "string \<rightharpoonup> string" where
  "operMap = map_of [(''eq'', ''=''), (''ne'', ''!=''), (''gt'', ''>''), (''lt'', ''<''),
                     (''lte'', ''<=''), (''gte'', ''>='')]"

definition conjMap :: "string \<rightharpoonup> string" where
  "conjMap = map_of [(''and'', ''AND''), (''or'', ''OR'')]"

definition sortMap :: "string \<rightharpoonup> string" where
  "sortMap = map_of [(''asc'', ''ASC''), (''desc'', ''DESC''), (''ASC'', ''ASC''),
                     (''DESC'', ''DESC'')]"

definition iterates :: "fieldData \<Rightarrow> iteration \<Rightarrow> bool" where
  "iterates fieldMap it =
     (visits fieldMap (filter_fields it) \<and> visits operMap (filter_opers it) \<and>
      visits conjMap (filter_conjs it) \<and> visits fieldMap (order_fields it) \<and>
      visits sortMap (order_sorts it) \<and> visits fieldMap (replace_fields it) \<and>
      visits sortMap (replace_sorts it))"

subsection \<open>parseOrderBy\<close>

text \<open>
  \<open>fieldList = append(fieldList, k, v)\<close> and \<open>sortList = append(sortList, v, k)\<close>; the
  pattern \<open>(%s)(\s(%s))*,*\<close>. The names are taken literally by the pattern: they hold no
  character that is special in a regular expression.
\<close>

definition keys_and_values :: "(string \<times> string) list \<Rightarrow> string list" where
  "keys_and_values xs = concat (map (\<lambda>(k, v). [k, v]) xs)"

definition values_and_keys :: "(string \<times> string) list \<Rightarrow> string list" where
  "values_and_keys xs = concat (map (\<lambda>(k, v). [v, k]) xs)"

definition orderby_pattern :: "string list \<Rightarrow> string list \<Rightarrow> regex" where
  "orderby_pattern fieldList sortList =
     Seq (Grp 1 (alts fieldList))
       (Seq (Star (Grp 2 (Seq (Cls Space) (Grp 3 (alts sortList))))) (Star (Lit '','')))"

definition replace_each :: "(string \<times> string) list \<Rightarrow> string \<Rightarrow> string" where
  "replace_each xs query = foldl (\<lambda>q (k, v). Replace q k v) query xs"

definition parseOrderBy :: "iteration \<Rightarrow> string \<Rightarrow> fieldData \<Rightarrow> error + string option" where
  "parseOrderBy it url fieldMap =
     (let query = parseQueryOption url orderBy_opt in
      if query = [] then Inr None
      else
        let fieldList = keys_and_values (order_fields it);
            sortList = values_and_keys (order_sorts it);
            re = orderby_pattern fieldList sortList
        in if TrimSpace (ReplaceAllLiteralString re query []) \<noteq> [] then Inl ErrInvalidQuery
           else Inr (Some (replace_each (replace_sorts it) (replace_each (replace_fields it) query))))"

subsection \<open>parseFilter\<close>

text \<open>
  The pattern
  \<open>(?P<field>%s)\s+(?P<operator>%s)\s+(?P<value>\d+|'[^']+')\s*(?P<conjunction>%s)*\s*\<close>,
  with groups 1 to 4 in this order. The call of \<open>log.Printf\<close> is left out: it writes the
  query to the log and has no other effect.
\<close>

definition filter_pattern :: "string list \<Rightarrow> string list \<Rightarrow> string list \<Rightarrow> regex" where
  "filter_pattern fieldList operList conjList =
     Seq (Grp 1 (alts fieldList))
      (Seq (Plus (Cls Space))
        (Seq (Grp 2 (alts operList))
          (Seq (Plus (Cls Space))
            (Seq (Grp 3 (Alt (Plus (Cls Digit))
                             (Seq (Lit [CHR 0x27]) (Seq (Plus (Cls NotQuote)) (Lit [CHR 0x27])))))
              (Seq (Star (Cls Space))
                (Seq (Star (Grp 4 (alts conjList))) (Star (Cls Space))))))))"

text \<open>The node of one match: the \<open>switch\<close> over the group names.\<close>

definition match_node :: "fieldData \<Rightarrow> caps \<Rightarrow> FilterNode" where
  "match_node fieldMap c =
     FilterNode (index fieldMap (submatch c 1)) (index operMap (submatch c 2))
       (index conjMap (submatch c 4)) (submatch c 3) None"

definition parseFilter :: "iteration \<Rightarrow> string \<Rightarrow> fieldData \<Rightarrow> error + Filter option" where
  "parseFilter it url fieldMap =
     (let query = parseQueryOption url filter_opt in
      if query = [] then Inr None
      else
        let fieldList = keys_and_values (filter_fields it);
            operList = map fst (filter_opers it);
            conjList = map fst (filter_conjs it);
            re = filter_pattern fieldList operList conjList
        in if TrimSpace (ReplaceAllLiteralString re query []) \<noteq> [] then Inl ErrInvalidQuery
           else
             let matches = FindAllStringSubmatch re query
             in Inr (Some (foldl (\<lambda>fil (a0, a1, c). Insert fil (match_node fieldMap c))
                                 \<lparr>Head = None\<rparr> matches)))"

subsection \<open>ParseURL\<close>

text \<open>
  The receiver is passed in and returned with the error (\<open>None\<close> is a nil error). The
  \<open>err\<close> of \<open>getStructFieldData\<close> is assigned again by the next statement before it is
  read.
\<close>

definition ParseURL :: "iteration \<Rightarrow> DataFilter \<Rightarrow> string \<Rightarrow> goval \<Rightarrow> error option \<times> DataFilter" where
  "ParseURL it f url src =
     (let (data, err) = getStructFieldData src in
      case parseFilter it url data of
        Inl err \<Rightarrow> (Some err, f)
      | Inr fil \<Rightarrow>
          (case parseOrderBy it url data of
             Inl err \<Rightarrow> (Some err, f)
           | Inr ob \<Rightarrow>
               (case parseTop url of
                  Inl err \<Rightarrow> (Some err, f)
                | Inr tp \<Rightarrow>
                    (case parseSkip url of
                       Inl err \<Rightarrow> (Some err, f)
                     | Inr sk \<Rightarrow>
                         (None, f\<lparr>Filter := fil, OrderBy := ob, Top := tp, Skip := sk\<rparr>)))))"

subsection \<open>EvaluateQuery\<close>

text \<open>\<open>fmt.Sprintf("%v%v%v %v ", node.Field, node.Operator, node.Value, node.Conjunction)\<close>\<close>

definition eval_node :: "FilterNode \<Rightarrow> string" where
  "eval_node node = Field node @ Operator node @ Value node @ '' '' @ Conjunction node @ '' ''"

text \<open>The loop \<open>for node.Next != nil\<close> and the \<open>query += eval(node)\<close> after it.\<close>

fun eval_chain :: "FilterNode \<Rightarrow> string \<Rightarrow> string" where
  "eval_chain (FilterNode f op c v (Some node)) query =
     eval_chain node (query @ eval_node (FilterNode f op c v (Some node)))"
| "eval_chain (FilterNode f op c v None) query = query @ eval_node (FilterNode f op c v None)"

definition EvaluateQuery :: "DataFilter \<Rightarrow> panic + string" where
  "EvaluateQuery f =
     (case Filter f of
        None \<Rightarrow> Inl NilPointerDereference
      | Some fil \<Rightarrow>
          (case Head fil of
             None \<Rightarrow> Inl NilPointerDereference
           | Some node \<Rightarrow>
               let query = eval_chain node ''WHERE '';
                   query = (case OrderBy f of None \<Rightarrow> query
                            | Some ob \<Rightarrow> query @ [CHR 0x0A] @ ''ORDER BY '' @ ob);
                   query = (case Skip f of None \<Rightarrow> query
                            | Some n \<Rightarrow> query @ [CHR 0x0A] @ ''OFFSET '' @ Itoa n);
                   query = (case Top f of None \<Rightarrow> query
                            | Some n \<Rightarrow> query @ [CHR 0x0A] @ ''LIMIT '' @ Itoa n)
               in Inr query))"

section \<open>Notions for stating and proving the claims\<close>

subsection \<open>About patterns and matching\<close>

text \<open>
  The first word of a string (up to its first white space), strings without white space,
  and lists of strings of which none is a proper prefix of another.
\<close>

definition word :: "string \<Rightarrow> string" where
  "word s = takeWhile (\<lambda>x. \<not> in_class Space x) s"

definition ws_free :: "string \<Rightarrow> bool" where
  "ws_free w = list_all (\<lambda>x. \<not> in_class Space x) w"

definition prefix_free :: "string list \<Rightarrow> bool" where
  "prefix_free ws = (\<forall>a\<in>set ws. \<forall>b\<in>set ws. prefix a b \<longrightarrow> a = b)"

text \<open>A pattern that matches only where the input begins with white space.\<close>

definition needs_space :: "regex \<Rightarrow> bool" where
  "needs_space r = (\<forall>s c. (s = [] \<or> \<not> in_class Space (hd s)) \<longrightarrow> backtrack r (s, c) = [])"

text \<open>Two patterns that match alike everywhere, captures included.\<close>

definition same :: "regex \<Rightarrow> regex \<Rightarrow> bool" where
  "same r r' = (\<forall>st. backtrack r st = backtrack r' st)"

text \<open>
  The position at which \<open>replaceAll\<close> and \<open>allMatches\<close> search next, after a match that
  was looked for at \<open>p\<close> and ended at \<open>a1\<close>.
\<close>

definition next_search :: "string \<Rightarrow> nat \<Rightarrow> nat \<Rightarrow> nat" where
  "next_search src p a1 =
     (if p + (if p < length src then 1 else 0) > a1 then p + (if p < length src then 1 else 0)
      else if p + 1 > a1 then p + 1 else a1)"

definition next_pos :: "string \<Rightarrow> nat \<Rightarrow> nat \<Rightarrow> nat" where
  "next_pos s pos a1 = (if a1 = pos then (if pos < length s then pos + 1 else length s + 1) else a1)"

text \<open>The pattern of a clause after the group of the field.\<close>

definition clause_tail :: "string list \<Rightarrow> string list \<Rightarrow> regex" where
  "clause_tail operList conjList =
      (Seq (Plus (Cls Space))
        (Seq (Grp 2 (alts operList))
          (Seq (Plus (Cls Space))
            (Seq (Grp 3 (Alt (Plus (Cls Digit))
                             (Seq (Lit [CHR 0x27]) (Seq (Plus (Cls NotQuote)) (Lit [CHR 0x27])))))
              (Seq (Star (Cls Space))
                (Seq (Star (Grp 4 (alts conjList))) (Star (Cls Space))))))))"

text \<open>The match a backtracking engine finds first.\<close>

definition first_match :: "regex \<Rightarrow> string \<times> caps \<Rightarrow> (string \<times> caps) option" where
  "first_match re st = (case backtrack re st of [] \<Rightarrow> None | x # _ \<Rightarrow> Some x)"

subsection \<open>About names and iteration\<close>

text \<open>The iteration that visits every map in the order its entries are written.\<close>

definition written_order :: "(string \<times> string) list \<Rightarrow> iteration" where
  "written_order fs =
     \<lparr>filter_fields = fs,
      filter_opers = [(''eq'', ''=''), (''ne'', ''!=''), (''gt'', ''>''), (''lt'', ''<''),
                      (''lte'', ''<=''), (''gte'', ''>='')],
      filter_conjs = [(''and'', ''AND''), (''or'', ''OR'')],
      order_fields = fs,
      order_sorts = [(''asc'', ''ASC''), (''desc'', ''DESC''), (''ASC'', ''ASC''),
                     (''DESC'', ''DESC'')],
      replace_fields = fs,
      replace_sorts = [(''asc'', ''ASC''), (''desc'', ''DESC''), (''ASC'', ''ASC''),
                       (''DESC'', ''DESC'')]\<rparr>"

text \<open>
  A plain name holds letters, digits and underscores only, as the names of Go fields and
  of SQL columns do: no white space, no \<open>&\<close> or \<open>$\<close>, and nothing that is special in a
  regular expression.
\<close>

definition plain_char :: "char \<Rightarrow> bool" where
  "plain_char x =
     (let n = (of_char x :: nat)
      in (97 \<le> n \<and> n \<le> 122) \<or> (65 \<le> n \<and> n \<le> 90) \<or> (48 \<le> n \<and> n \<le> 57) \<or> n = 95)"

definition plain :: "string \<Rightarrow> bool" where
  "plain w = list_all plain_char w"

subsection \<open>About values and chains\<close>







subsection \<open>About clauses\<close>

text \<open>
  The text of a clause in its parts: a name, white space, an operator keyword, white
  space, a value, white space, conjunction keywords, white space.
\<close>

record clause =
  field_name :: string
  space1 :: string
  oper_word :: string
  space2 :: string
  value_text :: string
  space3 :: string
  conj_words :: "string list"
  space4 :: string

definition clause_text :: "clause \<Rightarrow> string" where
  "clause_text cl =
     field_name cl @ space1 cl @ oper_word cl @ space2 cl @ value_text cl @ space3 cl @
     concat (conj_words cl) @ space4 cl"

text \<open>White space in the sense of the pattern's \<open>\s\<close>.\<close>

definition white :: "string \<Rightarrow> bool" where
  "white w = list_all (in_class Space) w"

text \<open>A value: decimal digits, or a text without quotes, not empty, between two quotes.\<close>

definition literal :: "string \<Rightarrow> bool" where
  "literal v =
     ((v \<noteq> [] \<and> list_all (in_class Digit) v) \<or>
      (3 \<le> length v \<and> hd v = CHR 0x27 \<and> last v = CHR 0x27 \<and>
       list_all (in_class NotQuote) (butlast (tl v))))"

text \<open>
  The words that an alternation of words matches: one of the words, the empty word when
  there is none (\<open>strings.Join\<close> of no words is the empty pattern).
\<close>

definition alternatives :: "string set \<Rightarrow> string set" where
  "alternatives ws = (if ws = {} then {[]} else ws)"

text \<open>
  A clause over given names, operator keywords and conjunction keywords: the white space
  after the name and after the operator keyword is not empty; the clause ends with any
  number of conjunction keywords, also none.
\<close>

definition is_clause :: "string set \<Rightarrow> string set \<Rightarrow> string set \<Rightarrow> clause \<Rightarrow> bool" where
  "is_clause fieldNames operWords conjWords cl =
     (field_name cl \<in> alternatives fieldNames \<and> space1 cl \<noteq> [] \<and> white (space1 cl) \<and>
      oper_word cl \<in> alternatives operWords \<and> space2 cl \<noteq> [] \<and> white (space2 cl) \<and>
      literal (value_text cl) \<and> white (space3 cl) \<and>
      list_all (\<lambda>k. k \<in> conjWords \<and> k \<noteq> []) (conj_words cl) \<and> white (space4 cl))"

text \<open>
  The node that stands for a clause: the field map's entry for its name, the SQL operator
  of its operator keyword, its value, and the SQL conjunction of its last conjunction
  keyword, none for a clause without a conjunction keyword.
\<close>

definition clause_node :: "fieldData \<Rightarrow> clause \<Rightarrow> FilterNode" where
  "clause_node fieldMap cl =
     FilterNode (index fieldMap (field_name cl)) (index operMap (oper_word cl))
       (if conj_words cl = [] then [] else index conjMap (last (conj_words cl)))
       (value_text cl) None"

subsection \<open>The inputs of the examples\<close>

text \<open>
  The example of the specification: the field map \<open>{Rate: "rate", Genre: "genre", Title:
  "title"}\<close>, a struct that gives it, the query, and the chain of its filter.
\<close>

definition rate_genre_title :: "(string \<times> string) list" where
  "rate_genre_title = [(''Title'', ''title''), (''Genre'', ''genre''), (''Rate'', ''rate'')]"

definition rate_genre_title_schema :: goval where
  "rate_genre_title_schema =
     Struct [(''Rate'', ''rate'', Other), (''Genre'', ''genre'', Other), (''Title'', ''title'', Other)]"

definition example_query :: string where
  "example_query = ''$filter=Rate lt 100 and Genre eq '' @ [CHR 0x27] @ ''Thriller'' @ [CHR 0x27] @
                   ''&$orderby=Title desc&$top=100&$skip=10''"

definition example_chain :: Filter where
  "example_chain =
     \<lparr>Head = Some (FilterNode ''rate'' ''<'' ''AND'' ''100''
               (Some (FilterNode ''genre'' ''='' [] ([CHR 0x27] @ ''Thriller'' @ [CHR 0x27]) None)))\<rparr>"

definition empty_filter :: DataFilter where
  "empty_filter = \<lparr>Filter = None, OrderBy = None, Top = None, Skip = None\<rparr>"

text \<open>The struct \<open>Book\<close> of the repository and its fields with an \<open>sql\<close> tag.\<close>

definition Book :: goval where
  "Book = Struct [(''ID'', ''id'', Other), (''AuthorID'', ''author_id'', Other),
                  (''Title'', ''title'', Other), (''Genre'', ''genre'', Other),
                  (''Rate'', ''rate'', Other), (''Size'', ''size'', Other),
                  (''CreatedAt'', [], Struct [])]"

definition book_fields :: "(string \<times> string) list" where
  "book_fields = [(''ID'', ''id''), (''AuthorID'', ''author_id''), (''Title'', ''title''),
                  (''Genre'', ''genre''), (''Rate'', ''rate''), (''Size'', ''size'')]"

text \<open>Two field names of which one is a prefix of the other.\<close>

definition rate_ratelimit :: "(string \<times> string) list" where
  "rate_ratelimit = [(''Rate'', ''rate''), (''RateLimit'', ''rate_limit'')]"

section \<open>Facts about the matching model\<close>

subsection \<open>Alternations of names\<close>

lemma alts_backtrack:
  "fl \<noteq> [] \<Longrightarrow>
   backtrack (alts fl) (s, c) = map (\<lambda>f. (drop (length f) s, c)) (filter (\<lambda>f. prefix f s) fl)"
  by (induction fl rule: alts.induct) simp_all

lemma take_prefix_length: "prefix f s \<Longrightarrow> take (length s - (length s - length f)) s = f"
  by (auto simp: prefix_def)

lemma grp_alts_backtrack:
  "fl \<noteq> [] \<Longrightarrow>
   backtrack (Grp n (alts fl)) (s, c) =
     map (\<lambda>f. (drop (length f) s, (n, f) # c)) (filter (\<lambda>f. prefix f s) fl)"
  by (simp add: alts_backtrack take_prefix_length cong: map_cong)

lemma needs_space_Cls: "needs_space (Seq (Cls Space) r)"
  by (auto simp: needs_space_def split: list.splits)

lemma needs_space_Seq: "needs_space a \<Longrightarrow> needs_space (Seq a b)"
  by (simp add: needs_space_def)

lemma not_word_no_space:
  assumes "prefix f s" "ws_free f" "f \<noteq> word s"
  shows "drop (length f) s = [] \<or> \<not> in_class Space (hd (drop (length f) s))"
proof (rule ccontr)
  assume "\<not> ?thesis"
  then obtain x r where d: "drop (length f) s = x # r" "in_class Space x"
    by (cases "drop (length f) s") auto
  from assms(1) d(1) have "s = f @ x # r" by (auto simp: prefix_def)
  moreover have "\<And>y. y \<in> set f \<Longrightarrow> \<not> in_class Space y"
    using assms(2) by (simp add: ws_free_def list_all_iff)
  ultimately have "word s = f" using d(2) unfolding word_def by simp
  with assms(3) show False by simp
qed

lemma word_delimited:
  assumes "list_all ws_free fl" "\<And>f. prefix f s \<Longrightarrow> ws_free f \<Longrightarrow> f \<noteq> word s \<Longrightarrow> g f = []"
  shows "concat (map g (filter (\<lambda>f. prefix f s) fl)) =
         concat (replicate (count_list fl (word s)) (g (word s)))"
  using assms(1)
proof (induction fl)
  case Nil
  then show ?case by simp
next
  case (Cons f fl)
  show ?case
  proof (cases "f = word s")
    case True
    then have "prefix f s" by (simp add: word_def takeWhile_is_prefix)
    with True Cons show ?thesis by simp
  next
    case False
    show ?thesis
    proof (cases "prefix f s")
      case True
      with False Cons.prems assms(2) have "g f = []" by simp
      with True False Cons show ?thesis by simp
    next
      case False
      with \<open>f \<noteq> word s\<close> Cons show ?thesis by simp
    qed
  qed
qed

lemma grp_alts_space:
  assumes "fl \<noteq> []" "list_all ws_free fl" "needs_space k"
  shows "backtrack (Seq (Grp n (alts fl)) k) (s, c) =
         concat (replicate (count_list fl (word s))
                   (backtrack k (drop (length (word s)) s, (n, word s) # c)))"
proof -
  define g where "g = (\<lambda>f. backtrack k (drop (length f) s, (n, f) # c))"
  have "g f = []" if "prefix f s" "ws_free f" "f \<noteq> word s" for f
    using not_word_no_space[OF that] assms(3) unfolding needs_space_def g_def by blast
  from word_delimited[OF assms(2), of s g, OF this]
  have "concat (map g (filter (\<lambda>f. prefix f s) fl)) =
        concat (replicate (count_list fl (word s)) (g (word s)))" by simp
  moreover have "backtrack (Seq (Grp n (alts fl)) k) (s, c) =
                 concat (map g (filter (\<lambda>f. prefix f s) fl))"
    by (simp only: backtrack.simps(3) grp_alts_backtrack[OF assms(1)]) (simp add: g_def comp_def)
  ultimately show ?thesis by (simp add: g_def)
qed

subsection \<open>Patterns that match alike\<close>

lemma sameD: "same r r' \<Longrightarrow> backtrack r st = backtrack r' st"
  unfolding same_def by blast

lemma sameI: "(\<And>st. backtrack r st = backtrack r' st) \<Longrightarrow> same r r'"
  unfolding same_def by blast

lemma same_refl: "same r r"
  by (rule sameI) simp

lemma same_Seq: "same a a' \<Longrightarrow> same b b' \<Longrightarrow> same (Seq a b) (Seq a' b')"
proof (rule sameI)
  fix st
  assume "same a a'" "same b b'"
  then have "backtrack a st = backtrack a' st" "backtrack b = backtrack b'"
    using sameD by blast+
  then show "backtrack (Seq a b) st = backtrack (Seq a' b') st" by simp
qed

lemma same_Grp: "same a a' \<Longrightarrow> same (Grp n a) (Grp n a')"
proof (rule sameI)
  fix st :: "string \<times> caps"
  assume "same a a'"
  then have "backtrack a st = backtrack a' st" by (rule sameD)
  then show "backtrack (Grp n a) st = backtrack (Grp n a') st" by (cases st) simp
qed

lemma same_Star:
  assumes "same a a'"
  shows "same (Star a) (Star a')"
proof (rule sameI)
  fix st
  show "backtrack (Star a) st = backtrack (Star a') st"
  proof (induction "length (fst st)" arbitrary: st rule: less_induct)
    case less
    have "(\<lambda>st'. if length (fst st') < length (fst st) then backtrack (Star a) st' else []) =
          (\<lambda>st'. if length (fst st') < length (fst st) then backtrack (Star a') st' else [])"
      using less by auto
    moreover have "backtrack a st = backtrack a' st" using assms by (rule sameD)
    ultimately show ?case
      by (subst backtrack.simps(5), subst (2) backtrack.simps(5)) simp
  qed
qed

lemma same_doExecute:
  assumes "same re re'"
  shows "doExecute re s pos = doExecute re' s pos"
proof (induction "length s - pos" arbitrary: pos rule: less_induct)
  case less
  have b: "backtrack re (drop pos s, []) = backtrack re' (drop pos s, [])"
    using assms by (rule sameD)
  have "doExecute re s (Suc pos) = doExecute re' s (Suc pos)" if "pos < length s"
    using less[of "Suc pos"] that by simp
  with b show ?case
    by (subst doExecute.simps, subst (2) doExecute.simps) (simp split: list.splits)
qed

lemma replaceAll_None:
  "doExecute re src p = None \<Longrightarrow> replaceAll re src repl l p buf = buf @ drop l src"
  by (subst replaceAll.simps) simp

lemma replaceAll_Some:
  assumes "doExecute re src p = Some (a0, a1, c)"
  shows "replaceAll re src repl l p buf =
         replaceAll re src repl a1 (next_search src p a1)
           (if a1 > l \<or> a0 = 0 then buf @ take (a0 - l) (drop l src) @ repl
            else buf @ take (a0 - l) (drop l src))"
proof -
  from doExecute_bounds[OF assms] have "p \<le> length src" by simp
  with assms show ?thesis
    by (subst replaceAll.simps) (simp add: Let_def next_search_def)
qed

lemma next_search_less:
  "p \<le> a1 \<Longrightarrow> a1 \<le> length src \<Longrightarrow> Suc (length src) - next_search src p a1 < Suc (length src) - p"
  by (auto simp: next_search_def)

lemma same_replaceAll:
  assumes "same re re'"
  shows "replaceAll re src repl l p buf = replaceAll re' src repl l p buf"
proof (induction "Suc (length src) - p" arbitrary: l p buf rule: less_induct)
  case less
  note d = same_doExecute[OF assms, of src p]
  show ?case
  proof (cases "doExecute re src p")
    case None
    with d show ?thesis by (simp add: replaceAll_None)
  next
    case (Some m)
    obtain a0 a1 c where m: "m = (a0, a1, c)" by (cases m)
    from doExecute_bounds[of re src p a0 a1 c] Some m
    have "p \<le> a1" "a1 \<le> length src" by simp_all
    from less[OF next_search_less[OF this]]
    have "\<And>l buf. replaceAll re src repl l (next_search src p a1) buf =
                   replaceAll re' src repl l (next_search src p a1) buf" .
    moreover have "doExecute re src p = Some (a0, a1, c)" "doExecute re' src p = Some (a0, a1, c)"
      using Some m d by simp_all
    ultimately show ?thesis by (simp only: replaceAll_Some)
  qed
qed

lemma allMatches_None: "doExecute re s pos = None \<Longrightarrow> allMatches re s pos prev = []"
  by (subst allMatches.simps) simp

lemma allMatches_Some:
  assumes "doExecute re s pos = Some (a0, a1, c)"
  shows "allMatches re s pos prev =
         (if a1 = pos \<and> int a0 = prev then allMatches re s (next_pos s pos a1) (int a1)
          else (a0, a1, c) # allMatches re s (next_pos s pos a1) (int a1))"
proof -
  from doExecute_bounds[OF assms] have "pos \<le> length s" by simp
  with assms show ?thesis
    by (subst allMatches.simps) (simp add: Let_def next_pos_def)
qed

lemma next_pos_less:
  "pos \<le> a1 \<Longrightarrow> a1 \<le> length s \<Longrightarrow> Suc (length s) - next_pos s pos a1 < Suc (length s) - pos"
  by (auto simp: next_pos_def)

lemma same_allMatches:
  assumes "same re re'"
  shows "allMatches re s pos prev = allMatches re' s pos prev"
proof (induction "Suc (length s) - pos" arbitrary: pos prev rule: less_induct)
  case less
  note d = same_doExecute[OF assms, of s pos]
  show ?case
  proof (cases "doExecute re s pos")
    case None
    with d show ?thesis by (simp add: allMatches_None)
  next
    case (Some m)
    obtain a0 a1 c where m: "m = (a0, a1, c)" by (cases m)
    from doExecute_bounds[of re s pos a0 a1 c] Some m
    have "pos \<le> a1" "a1 \<le> length s" by simp_all
    from less[OF next_pos_less[OF this]]
    have "\<And>prev. allMatches re s (next_pos s pos a1) prev =
                  allMatches re' s (next_pos s pos a1) prev" .
    moreover have "doExecute re s pos = Some (a0, a1, c)" "doExecute re' s pos = Some (a0, a1, c)"
      using Some m d by simp_all
    ultimately show ?thesis by (simp only: allMatches_Some)
  qed
qed

lemma same_ReplaceAllLiteralString:
  "same re re' \<Longrightarrow> ReplaceAllLiteralString re src repl = ReplaceAllLiteralString re' src repl"
  by (simp add: ReplaceAllLiteralString_def same_replaceAll)

lemma same_FindAllStringSubmatch:
  "same re re' \<Longrightarrow> FindAllStringSubmatch re s = FindAllStringSubmatch re' s"
  by (simp add: FindAllStringSubmatch_def same_allMatches)

lemma all_equal_mset:
  "mset xs = mset ys \<Longrightarrow> (\<And>a b. a \<in> set xs \<Longrightarrow> b \<in> set xs \<Longrightarrow> a = b) \<Longrightarrow> xs = ys"
proof (induction xs arbitrary: ys)
  case Nil
  then show ?case by simp
next
  case (Cons a xs)
  from Cons.prems(1) have "set ys = set (a # xs)" by (metis mset_eq_setD)
  moreover from Cons.prems(1) obtain b ys' where ys: "ys = b # ys'" by (cases ys) auto
  ultimately have "b \<in> set (a # xs)" by auto
  then have "b = a" using Cons.prems(2)[of b a] by simp
  with Cons.prems(1) ys have "mset xs = mset ys'" by simp
  with Cons.IH[of ys'] Cons.prems(2) \<open>b = a\<close> ys show ?case by simp
qed

lemma alts_same_prefix_free:
  assumes "prefix_free fl" "mset fl = mset fl'"
  shows "same (alts fl) (alts fl')"
proof (cases "fl = []")
  case True
  with assms(2) show ?thesis by (simp add: same_refl)
next
  case False
  with assms(2) have ne: "fl' \<noteq> []" by auto
  show ?thesis
  proof (rule sameI)
    fix st :: "string \<times> caps"
    obtain s c where st: "st = (s, c)" by (cases st)
    have "mset (filter (\<lambda>f. prefix f s) fl) = mset (filter (\<lambda>f. prefix f s) fl')"
      using assms(2) by simp
    moreover have "a = b" if "a \<in> set (filter (\<lambda>f. prefix f s) fl)"
      "b \<in> set (filter (\<lambda>f. prefix f s) fl)" for a b
    proof -
      from that have ab: "a \<in> set fl" "b \<in> set fl" "prefix a s" "prefix b s" by simp_all
      then have "prefix a b \<or> prefix b a" using prefix_same_cases by blast
      with ab(1,2) assms(1) show ?thesis unfolding prefix_free_def by blast
    qed
    ultimately have "filter (\<lambda>f. prefix f s) fl = filter (\<lambda>f. prefix f s) fl'"
      by (rule all_equal_mset)
    with False ne st show "backtrack (alts fl) st = backtrack (alts fl') st"
      by (simp add: alts_backtrack)
  qed
qed

lemma grp_space_same:
  assumes "list_all ws_free fl" "mset fl = mset fl'" "needs_space k" "same k k'"
  shows "same (Seq (Grp n (alts fl)) k) (Seq (Grp n (alts fl')) k')"
proof (cases "fl = []")
  case True
  with assms(2) have "fl' = []" by simp
  with True assms(4) show ?thesis by (simp add: same_Seq same_refl)
next
  case False
  with assms(2) have ne: "fl' \<noteq> []" by auto
  from assms(2) have "set fl = set fl'" by (rule mset_eq_setD)
  with assms(1) have ws: "list_all ws_free fl'" by (simp add: list_all_iff)
  from assms(3,4) have k': "needs_space k'" unfolding needs_space_def using sameD by metis
  show ?thesis
  proof (rule sameI)
    fix st :: "string \<times> caps"
    obtain s c where st: "st = (s, c)" by (cases st)
    have "count_list fl (word s) = count_list fl' (word s)"
      using assms(2) by (metis count_mset)
    then show "backtrack (Seq (Grp n (alts fl)) k) st = backtrack (Seq (Grp n (alts fl')) k') st"
      unfolding st grp_alts_space[OF False assms(1,3)] grp_alts_space[OF ne ws k']
      using sameD[OF assms(4)] by simp
  qed
qed

lemma filter_pattern_same:
  assumes "list_all ws_free fl" "mset fl = mset fl'"
    and "list_all ws_free ol" "mset ol = mset ol'"
    and "prefix_free cl" "mset cl = mset cl'"
  shows "same (filter_pattern fl ol cl) (filter_pattern fl' ol' cl')"
  unfolding filter_pattern_def
  by (intro grp_space_same same_Seq same_refl same_Star same_Grp alts_same_prefix_free assms
        needs_space_Seq needs_space_Cls)

lemma orderby_pattern_same:
  assumes "prefix_free fl" "mset fl = mset fl'" "prefix_free sl" "mset sl = mset sl'"
  shows "same (orderby_pattern fl sl) (orderby_pattern fl' sl')"
  unfolding orderby_pattern_def
  by (intro same_Seq same_refl same_Star same_Grp alts_same_prefix_free assms)

subsection \<open>The order of iteration\<close>

lemma visits_mset: "visits m xs \<Longrightarrow> visits m ys \<Longrightarrow> mset xs = mset ys"
proof -
  assume a: "visits m xs" "visits m ys"
  then have "set xs = set ys"
    unfolding visits_def using map_of_inject_set[of xs ys] by simp
  moreover from a have "distinct xs" "distinct ys"
    unfolding visits_def by (auto simp: distinct_map)
  ultimately show ?thesis by (simp add: set_eq_iff_mset_eq_distinct)
qed

lemma visits_map_of: "distinct (map fst ref) \<Longrightarrow> visits (map_of ref) ref"
  by (simp add: visits_def)

lemma visits_ref:
  assumes "visits (map_of ref) xs" "distinct (map fst ref)"
  shows "mset xs = mset ref"
  using visits_mset[OF assms(1) visits_map_of[OF assms(2)]] .

lemma keys_and_values_mset: "mset xs = mset ys \<Longrightarrow> mset (keys_and_values xs) = mset (keys_and_values ys)"
proof -
  assume a: "mset xs = mset ys"
  have "mset (keys_and_values zs) = (\<Sum>p\<in>#mset zs. mset (case p of (k, v) \<Rightarrow> [k, v]))" for zs
    by (induction zs) (auto simp: keys_and_values_def)
  with a show ?thesis by simp
qed

lemma values_and_keys_mset: "mset xs = mset ys \<Longrightarrow> mset (values_and_keys xs) = mset (values_and_keys ys)"
proof -
  assume a: "mset xs = mset ys"
  have "mset (values_and_keys zs) = (\<Sum>p\<in>#mset zs. mset (case p of (k, v) \<Rightarrow> [v, k]))" for zs
    by (induction zs) (auto simp: values_and_keys_def)
  with a show ?thesis by simp
qed

lemma map_fst_mset: "mset xs = mset ys \<Longrightarrow> mset (map fst xs) = mset (map fst ys)"
  by (metis mset_map)

lemma ws_free_mset: "mset xs = mset ys \<Longrightarrow> list_all ws_free ys \<Longrightarrow> list_all ws_free xs"
  by (metis list_all_iff mset_eq_setD)

lemma prefix_free_mset: "mset xs = mset ys \<Longrightarrow> prefix_free ys \<Longrightarrow> prefix_free xs"
  unfolding prefix_free_def by (metis mset_eq_setD)

lemma iterates_written_order: "distinct (map fst fs) \<Longrightarrow> iterates (map_of fs) (written_order fs)"
  by (simp add: iterates_def visits_def written_order_def operMap_def conjMap_def sortMap_def)

lemma opers_of_iteration:
  assumes "visits operMap xs"
  shows "mset (map fst xs) = mset [''eq'', ''ne'', ''gt'', ''lt'', ''lte'', ''gte'']"
proof -
  have "mset xs = mset [(''eq'', ''=''), (''ne'', ''!=''), (''gt'', ''>''), (''lt'', ''<''),
                        (''lte'', ''<=''), (''gte'', ''>='')]"
    using assms unfolding operMap_def by (rule visits_ref) simp
  from map_fst_mset[OF this] show ?thesis by simp
qed

lemma conjs_of_iteration:
  assumes "visits conjMap xs"
  shows "mset (map fst xs) = mset [''and'', ''or'']"
proof -
  have "mset xs = mset [(''and'', ''AND''), (''or'', ''OR'')]"
    using assms unfolding conjMap_def by (rule visits_ref) simp
  from map_fst_mset[OF this] show ?thesis by simp
qed

lemma sorts_of_iteration:
  assumes "visits sortMap xs"
  shows "mset xs = mset [(''asc'', ''ASC''), (''desc'', ''DESC''), (''ASC'', ''ASC''),
                         (''DESC'', ''DESC'')]"
  using assms unfolding sortMap_def by (rule visits_ref) simp

lemma opers_ws_free: "list_all ws_free [''eq'', ''ne'', ''gt'', ''lt'', ''lte'', ''gte'']"
  by (simp add: ws_free_def)

lemma conjs_prefix_free: "prefix_free [''and'', ''or'']"
  by (simp add: prefix_free_def)

lemma sorts_prefix_free:
  "prefix_free (values_and_keys [(''asc'', ''ASC''), (''desc'', ''DESC''), (''ASC'', ''ASC''),
                                 (''DESC'', ''DESC'')])"
  by (simp add: prefix_free_def values_and_keys_def)

text \<open>
  \<open>parseFilter\<close> does not depend on the order of iteration when no field name and no
  column name holds white space: the white space the pattern requires after the field and
  after the operator ends each of them.
\<close>

lemma filter_pattern_iteration:
  assumes "iterates fieldMap it" "iterates fieldMap it'"
    and "list_all ws_free (keys_and_values (filter_fields it))"
  shows "same (filter_pattern (keys_and_values (filter_fields it)) (map fst (filter_opers it))
                 (map fst (filter_conjs it)))
              (filter_pattern (keys_and_values (filter_fields it')) (map fst (filter_opers it'))
                 (map fst (filter_conjs it')))"
proof (rule filter_pattern_same)
  show "list_all ws_free (keys_and_values (filter_fields it))" by (rule assms(3))
  show "mset (keys_and_values (filter_fields it)) = mset (keys_and_values (filter_fields it'))"
    using assms(1,2) by (intro keys_and_values_mset visits_mset[of fieldMap]) (simp_all add: iterates_def)
  have o: "visits operMap (filter_opers it)" "visits operMap (filter_opers it')"
    using assms(1,2) by (simp_all add: iterates_def)
  show "list_all ws_free (map fst (filter_opers it))"
    using ws_free_mset[OF opers_of_iteration[OF o(1)] opers_ws_free] .
  show "mset (map fst (filter_opers it)) = mset (map fst (filter_opers it'))"
    using opers_of_iteration[OF o(1)] opers_of_iteration[OF o(2)] by simp
  have c: "visits conjMap (filter_conjs it)" "visits conjMap (filter_conjs it')"
    using assms(1,2) by (simp_all add: iterates_def)
  show "prefix_free (map fst (filter_conjs it))"
    using prefix_free_mset[OF conjs_of_iteration[OF c(1)] conjs_prefix_free] .
  show "mset (map fst (filter_conjs it)) = mset (map fst (filter_conjs it'))"
    using conjs_of_iteration[OF c(1)] conjs_of_iteration[OF c(2)] by simp
qed

lemma parseFilter_iteration:
  assumes "iterates fieldMap it" "iterates fieldMap it'"
    and "list_all ws_free (keys_and_values (filter_fields it))"
  shows "parseFilter it url fieldMap = parseFilter it' url fieldMap"
  using same_ReplaceAllLiteralString[OF filter_pattern_iteration[OF assms]]
    same_FindAllStringSubmatch[OF filter_pattern_iteration[OF assms]]
  by (simp add: parseFilter_def Let_def)

lemma fields_ws_free:
  assumes "visits (map_of ref) xs" "distinct (map fst ref)" "list_all ws_free (keys_and_values ref)"
  shows "list_all ws_free (keys_and_values xs)"
  using ws_free_mset[OF keys_and_values_mset[OF visits_ref[OF assms(1,2)]] assms(3)] .

subsection \<open>The replacement loops of parseOrderBy\<close>

lemma replace_each_fixed:
  "(\<And>k v. (k, v) \<in> set xs \<Longrightarrow> Replace q k v = q) \<Longrightarrow> replace_each xs q = q"
  by (induction xs) (auto simp: replace_each_def)

lemma replace_each_Cons: "replace_each ((k, v) # xs) q = replace_each xs (Replace q k v)"
  by (simp add: replace_each_def)

text \<open>
  When one entry of the map turns \<open>q\<close> into \<open>q'\<close>, the others leave \<open>q\<close> as it is and
  all leave \<open>q'\<close> as it is, the loop gives \<open>q'\<close> in every order.
\<close>

lemma replace_each_one:
  assumes "(k, v) \<in> set xs" "Replace q k v = q'"
    and "\<And>k' v'. (k', v') \<in> set xs \<Longrightarrow> (k', v') \<noteq> (k, v) \<Longrightarrow> Replace q k' v' = q"
    and "\<And>k' v'. (k', v') \<in> set xs \<Longrightarrow> Replace q' k' v' = q'"
  shows "replace_each xs q = q'"
  using assms(1,3,4)
proof (induction xs)
  case Nil
  then show ?case by simp
next
  case (Cons p xs)
  obtain k' v' where p: "p = (k', v')" by (cases p)
  show ?case
  proof (cases "p = (k, v)")
    case True
    have "replace_each xs q' = q'"
      by (rule replace_each_fixed) (simp add: Cons.prems(3))
    with True assms(2) show ?thesis by (simp add: replace_each_Cons)
  next
    case False
    with Cons.prems(1) have in_xs: "(k, v) \<in> set xs" by simp
    from False p Cons.prems(2)[of k' v'] have "Replace q k' v' = q" by simp
    moreover have "replace_each xs q = q'"
      using in_xs Cons.prems(2,3) by (intro Cons.IH) simp_all
    ultimately show ?thesis by (simp add: p replace_each_Cons)
  qed
qed

lemma orderby_pattern_iteration:
  assumes "iterates fieldMap it" "iterates fieldMap it'"
    and "prefix_free (keys_and_values (order_fields it))"
  shows "same (orderby_pattern (keys_and_values (order_fields it)) (values_and_keys (order_sorts it)))
              (orderby_pattern (keys_and_values (order_fields it')) (values_and_keys (order_sorts it')))"
proof (rule orderby_pattern_same)
  show "prefix_free (keys_and_values (order_fields it))" by (rule assms(3))
  show "mset (keys_and_values (order_fields it)) = mset (keys_and_values (order_fields it'))"
    using assms(1,2) by (intro keys_and_values_mset visits_mset[of fieldMap]) (simp_all add: iterates_def)
  have s: "visits sortMap (order_sorts it)" "visits sortMap (order_sorts it')"
    using assms(1,2) by (simp_all add: iterates_def)
  show "prefix_free (values_and_keys (order_sorts it))"
    using prefix_free_mset[OF values_and_keys_mset[OF sorts_of_iteration[OF s(1)]] sorts_prefix_free] .
  show "mset (values_and_keys (order_sorts it)) = mset (values_and_keys (order_sorts it'))"
    using sorts_of_iteration[OF s(1)] sorts_of_iteration[OF s(2)]
    by (intro values_and_keys_mset) simp
qed

lemma fields_prefix_free:
  assumes "visits (map_of ref) xs" "distinct (map fst ref)" "prefix_free (keys_and_values ref)"
  shows "prefix_free (keys_and_values xs)"
  using prefix_free_mset[OF keys_and_values_mset[OF visits_ref[OF assms(1,2)]] assms(3)] .

lemma visits_ref_set:
  assumes "visits (map_of ref) xs" "distinct (map fst ref)"
  shows "set xs = set ref"
  using visits_ref[OF assms] by (rule mset_eq_setD)

subsection \<open>A filter of one clause\<close>

lemma plain_char_classes: "plain_char x \<Longrightarrow> \<not> in_class Space x \<and> in_class NotAmpDollar x"
  by (auto simp: plain_char_def Let_def)

lemma plain_ws_free: "plain w \<Longrightarrow> ws_free w"
  unfolding plain_def ws_free_def list_all_iff using plain_char_classes by blast

lemma plain_NotAmpDollar: "plain w \<Longrightarrow> list_all (in_class NotAmpDollar) w"
  unfolding plain_def list_all_iff using plain_char_classes by blast

lemma star_class_all:
  "list_all (in_class k) q \<Longrightarrow> \<exists>rest. backtrack (Star (Cls k)) (q, c) = ([], c) # rest"
proof (induction q)
  case Nil
  show ?case by (subst backtrack.simps(5)) simp
next
  case (Cons x q)
  then obtain rest where "backtrack (Star (Cls k)) (q, c) = ([], c) # rest" by auto
  with Cons.prems show ?case by (subst backtrack.simps(5)) simp
qed

lemma doExecute_here:
  "pos \<le> length s \<Longrightarrow> backtrack re (drop pos s, []) = (rest, c) # xs \<Longrightarrow>
   doExecute re s pos = Some (pos, length s - length rest, c)"
  by (subst doExecute.simps) simp

lemma doExecute_end:
  "backtrack re ([], []) = [] \<Longrightarrow> doExecute re s (length s) = None"
  by (subst doExecute.simps) simp

lemma parseQueryOption_value:
  assumes "list_all (in_class NotAmpDollar) q"
  shows "parseQueryOption (opt @ ''='' @ q) opt = q"
proof -
  obtain rest where "backtrack (Star (Cls NotAmpDollar)) (q, [(1, opt @ ''='')]) =
      ([], [(1, opt @ ''='')]) # rest"
    using star_class_all[OF assms] by blast
  then have "backtrack (option_pattern opt) (drop 0 (opt @ ''='' @ q), []) =
      ([], [(2, q), (1, opt @ ''='')]) #
      map (\<lambda>(s', c'). (s', (2, take (length q - length s') q) # c')) rest"
    by (simp add: option_pattern_def)
  from doExecute_here[OF _ this] show ?thesis
    by (simp add: parseQueryOption_def submatch_def)
qed

text \<open>A match of the whole of a string that is not empty.\<close>

lemma whole_match:
  assumes "doExecute re s 0 = Some (0, length s, c)" "doExecute re s (length s) = None" "s \<noteq> []"
  shows "ReplaceAllLiteralString re s [] = []" and "FindAllStringSubmatch re s = [(0, length s, c)]"
proof -
  from assms(3) have n: "next_search s 0 (length s) = length s" "next_pos s 0 (length s) = length s"
    by (auto simp: next_search_def next_pos_def)
  show "ReplaceAllLiteralString re s [] = []"
    by (simp add: ReplaceAllLiteralString_def replaceAll_Some[OF assms(1)] n
        replaceAll_None[OF assms(2)])
  show "FindAllStringSubmatch re s = [(0, length s, c)]"
    using assms(3)
    by (simp add: FindAllStringSubmatch_def allMatches_Some[OF assms(1)] n
        allMatches_None[OF assms(2)])
qed

lemma filter_pattern_tail:
  "filter_pattern fl ol cl = Seq (Grp 1 (alts fl)) (clause_tail ol cl)"
  by (simp add: filter_pattern_def clause_tail_def)

lemma needs_space_tail: "needs_space (clause_tail ol cl)"
  unfolding clause_tail_def by (intro needs_space_Seq needs_space_Cls)

lemma needs_space_empty:
  assumes "needs_space k"
  shows "backtrack (Seq a k) ([], c) = []"
proof -
  have "backtrack k st = []" if "st \<in> set (backtrack a ([], c))" for st
  proof -
    from backtrack_suffix[OF that] have "fst st = []" by simp
    with assms show ?thesis unfolding needs_space_def by (cases st) auto
  qed
  then show ?thesis by (simp add: concat_eq_Nil_conv)
qed

lemma first_matchD: "first_match re st = Some x \<Longrightarrow> \<exists>xs. backtrack re st = x # xs"
  by (auto simp: first_match_def split: list.splits)

lemma clause_match:
  assumes "list_all ws_free fl" "k \<in> set fl" "r \<noteq> []" "in_class Space (hd r)"
    and "backtrack (clause_tail ol cl) (r, (1, k) # c) = x # xs"
  shows "\<exists>ys. backtrack (filter_pattern fl ol cl) (k @ r, c) = x # ys"
proof -
  from assms(1,2) have "ws_free k" by (simp add: list_all_iff)
  then have "\<And>y. y \<in> set k \<Longrightarrow> \<not> in_class Space y" by (simp add: ws_free_def list_all_iff)
  with assms(3,4) have w: "word (k @ r) = k"
    unfolding word_def by (cases r) simp_all
  from assms(2) have ne: "fl \<noteq> []" by auto
  from assms(2) obtain n where n: "count_list fl k = Suc n"
    by (metis count_list_0_iff not0_implies_Suc)
  show ?thesis
    unfolding filter_pattern_tail grp_alts_space[OF ne assms(1) needs_space_tail] w
    using assms(5) by (simp add: n)
qed

lemma single_clause:
  assumes "iterates fieldMap it" "list_all plain (keys_and_values (filter_fields it))"
    and "fieldMap k = Some col"
    and "r \<noteq> []" "in_class Space (hd r)" "list_all (in_class NotAmpDollar) r"
    and "first_match (clause_tail [''eq'', ''ne'', ''gt'', ''lt'', ''lte'', ''gte''] [''and'', ''or''])
           (r, [(1, k)]) = Some ([], c)"
  shows "parseFilter it (''$filter='' @ k @ r) fieldMap =
         Inr (Some \<lparr>Head = Some (match_node fieldMap c)\<rparr>)"
proof -
  let ?fl = "keys_and_values (filter_fields it)"
  let ?re = "filter_pattern ?fl (map fst (filter_opers it)) (map fst (filter_conjs it))"
  let ?ref = "filter_pattern ?fl [''eq'', ''ne'', ''gt'', ''lt'', ''lte'', ''gte''] [''and'', ''or'']"
  have ws: "list_all ws_free ?fl"
    using assms(2) plain_ws_free by (auto simp: list_all_iff)
  have v: "visits fieldMap (filter_fields it)" "visits operMap (filter_opers it)"
    "visits conjMap (filter_conjs it)"
    using assms(1) by (simp_all add: iterates_def)
  from v(1) assms(3) have "(k, col) \<in> set (filter_fields it)"
    unfolding visits_def by (auto dest: map_of_SomeD)
  then have k: "k \<in> set ?fl" by (force simp: keys_and_values_def)
  with assms(2) have pk: "plain k" by (simp add: list_all_iff)
  have same: "same ?re ?ref"
    using ws opers_of_iteration[OF v(2)] conjs_of_iteration[OF v(3)]
    by (intro filter_pattern_same)
      (auto intro: ws_free_mset[OF _ opers_ws_free] prefix_free_mset[OF _ conjs_prefix_free])
  define url where "url = ''$filter='' @ k @ r"
  have q: "parseQueryOption url filter_opt = k @ r"
    using parseQueryOption_value[of "k @ r" filter_opt] plain_NotAmpDollar[OF pk] assms(6)
    by (simp add: filter_opt_def url_def)
  from first_matchD[OF assms(7)] obtain xs where
    "backtrack (clause_tail [''eq'', ''ne'', ''gt'', ''lt'', ''lte'', ''gte''] [''and'', ''or''])
       (r, [(1, k)]) = ([], c) # xs" by blast
  from clause_match[OF ws k assms(4,5) this]
  obtain ys where "backtrack ?ref (drop 0 (k @ r), []) = ([], c) # ys" by auto
  from doExecute_here[OF _ this] have first: "doExecute ?ref (k @ r) 0 = Some (0, length (k @ r), c)"
    by simp
  have "backtrack ?ref ([], []) = []"
    unfolding filter_pattern_tail by (rule needs_space_empty[OF needs_space_tail])
  then have last: "doExecute ?ref (k @ r) (length (k @ r)) = None" by (rule doExecute_end)
  from assms(4) have ne: "k @ r \<noteq> []" by simp
  note whole = whole_match[OF first last ne]
  have "parseFilter it url fieldMap = Inr (Some \<lparr>Head = Some (match_node fieldMap c)\<rparr>)"
    using ne
    by (simp add: parseFilter_def q Let_def same_ReplaceAllLiteralString[OF same]
        same_FindAllStringSubmatch[OF same] whole TrimSpace_def Insert_def)
  then show ?thesis by (simp only: url_def)
qed

section \<open>The claims\<close>

subsection \<open>Queries without options\<close>

lemma parseQueryOption_empty:
  "parseQueryOption [] filter_opt = []" "parseQueryOption [] orderBy_opt = []"
  "parseQueryOption [] top_opt = []" "parseQueryOption [] skip_opt = []"
  by code_simp+

lemma ParseURL_empty_query:
  "ParseURL it f [] src = (None, f\<lparr>Filter := None, OrderBy := None, Top := None, Skip := None\<rparr>)"
  by (simp add: ParseURL_def parseFilter_def parseOrderBy_def parseTop_def parseSkip_def
      parseQueryOption_empty split: prod.splits)

text \<open>
  C1. The claim: a DataFilter whose Filter is absent renders without traversing filter
  nodes and without a WHERE clause, and to the empty string when all four fields are
  absent. The code: \<open>EvaluateQuery\<close> reads \<open>f.Filter.Head\<close> with no nil check (it checks
  \<open>OrderBy\<close>, \<open>Skip\<close> and \<open>Top\<close>), so every DataFilter without a Filter panics; the
  DataFilter parsed from the empty query has all four fields absent and is one of them.
\<close>

theorem render_absent_filter_panics:
  "EvaluateQuery (f\<lparr>Filter := None\<rparr>) = Inl NilPointerDereference \<and>
   snd (ParseURL it f [] src) = f\<lparr>Filter := None, OrderBy := None, Top := None, Skip := None\<rparr> \<and>
   EvaluateQuery (snd (ParseURL it f [] src)) = Inl NilPointerDereference"
  by (simp add: EvaluateQuery_def ParseURL_empty_query)

subsection \<open>The schema error\<close>

text \<open>
  C2. The claim: parsing against a schema that is not a struct fails with the schema error
  and produces no DataFilter. The code: \<open>getStructFieldData\<close> returns the error, and
  \<open>ParseURL\<close> overwrites it unread; on the empty query it returns nil and fills the
  DataFilter.
\<close>

theorem schema_error_dropped:
  "getStructFieldData Other = (Map.empty, Some ErrNotStruct) \<and>
   getStructFieldData (Pointer None) = (Map.empty, Some ErrNotStruct) \<and>
   ParseURL it f [] Other =
     (None, f\<lparr>Filter := None, OrderBy := None, Top := None, Skip := None\<rparr>) \<and>
   ParseURL it f [] (Pointer None) =
     (None, f\<lparr>Filter := None, OrderBy := None, Top := None, Skip := None\<rparr>)"
  by (simp add: ParseURL_empty_query)

lemma top_abc: "parseTop ''$top=abc'' = Inl (ErrTop ErrSyntax)"
  by code_simp

lemma no_filter_orderby_in_top_abc:
  "parseQueryOption ''$top=abc'' filter_opt = []" "parseQueryOption ''$top=abc'' orderBy_opt = []"
  by code_simp+

text \<open>On an error the receiver is returned as it was passed.\<close>

lemma ParseURL_atomic: "ParseURL it f url src = (Some e, f') \<Longrightarrow> f' = f"
  by (auto simp: ParseURL_def split: prod.splits sum.splits)

text \<open>
  C9. The claim: on an error the DataFilter is left unchanged and the first error
  encountered is the one returned. The code leaves the DataFilter unchanged
  (\<open>ParseURL_atomic\<close>), but for a schema that is not a struct and the query \<open>$top=abc\<close>
  the first error encountered is the schema error and the one returned is that of
  \<open>$top\<close>.
\<close>

theorem first_error_not_returned:
  "snd (getStructFieldData Other) = Some ErrNotStruct \<and>
   ParseURL it f ''$top=abc'' Other = (Some (ErrTop ErrSyntax), f)"
  by (simp add: ParseURL_def parseFilter_def parseOrderBy_def no_filter_orderby_in_top_abc top_abc)

subsection \<open>A column name in the place of a field name\<close>

lemma rate_lt_100_written:
  "parseFilter (written_order [(''Rate'', ''rate'')]) ''$filter=rate lt 100''
     (map_of [(''Rate'', ''rate'')]) =
   Inr (Some \<lparr>Head = Some (FilterNode [] ''<'' [] ''100'' None)\<rparr>)"
  by code_simp

text \<open>
  C10. With the field map \<open>{Rate: "rate"}\<close> the filter \<open>rate lt 100\<close>, which names
  the column, passes the validation (the pattern lists the columns beside the field names)
  and parses to a node whose Field is the empty string, in every order of iteration.
\<close>

theorem column_name_as_field:
  assumes "iterates (map_of [(''Rate'', ''rate'')]) it"
  shows "parseFilter it ''$filter=rate lt 100'' (map_of [(''Rate'', ''rate'')]) =
         Inr (Some \<lparr>Head = Some (FilterNode [] ''<'' [] ''100'' None)\<rparr>)"
proof -
  have "visits (map_of [(''Rate'', ''rate'')]) (filter_fields it)"
    using assms by (simp add: iterates_def)
  then have "list_all ws_free (keys_and_values (filter_fields it))"
    by (rule fields_ws_free) (simp_all add: keys_and_values_def ws_free_def)
  moreover have "iterates (map_of [(''Rate'', ''rate'')]) (written_order [(''Rate'', ''rate'')])"
    by (rule iterates_written_order) simp
  ultimately show ?thesis
    using parseFilter_iteration[OF assms] rate_lt_100_written by metis
qed

theorem column_name_as_field_witness:
  "iterates (map_of [(''Rate'', ''rate'')]) (written_order [(''Rate'', ''rate'')]) \<and>
   parseFilter (written_order [(''Rate'', ''rate'')]) ''$filter=rate lt 100''
     (map_of [(''Rate'', ''rate'')]) =
   Inr (Some \<lparr>Head = Some (FilterNode [] ''<'' [] ''100'' None)\<rparr>)"
proof -
  have h: "iterates (map_of [(''Rate'', ''rate'')]) (written_order [(''Rate'', ''rate'')])"
    by (rule iterates_written_order) simp
  show ?thesis by (rule conjI[OF h column_name_as_field[OF h]])
qed

subsection \<open>The round trip of the example\<close>

lemma schema_field_map: "getStructFieldData rate_genre_title_schema = (map_of rate_genre_title, None)"
  by (simp add: rate_genre_title_schema_def rate_genre_title_def lower_first_def)

lemma example_filter_written:
  "parseFilter (written_order rate_genre_title) example_query (map_of rate_genre_title) =
   Inr (Some example_chain)"
  by code_simp

lemma example_orderby_valid:
  "TrimSpace (ReplaceAllLiteralString
     (orderby_pattern (keys_and_values (order_fields (written_order rate_genre_title)))
        (values_and_keys (order_sorts (written_order rate_genre_title))))
     ''Title desc'' []) = []"
  by code_simp

lemma example_options:
  "parseQueryOption example_query orderBy_opt = ''Title desc''"
  "parseTop example_query = Inr (Some 100)"
  "parseSkip example_query = Inr (Some 10)"
  by code_simp+

lemma example_field_replacements:
  "Replace ''Title desc'' ''Title'' ''title'' = ''title desc''"
  "Replace ''Title desc'' ''Genre'' ''genre'' = ''Title desc''"
  "Replace ''Title desc'' ''Rate'' ''rate'' = ''Title desc''"
  "Replace ''title desc'' ''Title'' ''title'' = ''title desc''"
  "Replace ''title desc'' ''Genre'' ''genre'' = ''title desc''"
  "Replace ''title desc'' ''Rate'' ''rate'' = ''title desc''"
  by code_simp+

lemma example_sort_replacements:
  "Replace ''title desc'' ''desc'' ''DESC'' = ''title DESC''"
  "Replace ''title desc'' ''asc'' ''ASC'' = ''title desc''"
  "Replace ''title desc'' ''ASC'' ''ASC'' = ''title desc''"
  "Replace ''title desc'' ''DESC'' ''DESC'' = ''title desc''"
  "Replace ''title DESC'' ''desc'' ''DESC'' = ''title DESC''"
  "Replace ''title DESC'' ''asc'' ''ASC'' = ''title DESC''"
  "Replace ''title DESC'' ''ASC'' ''ASC'' = ''title DESC''"
  "Replace ''title DESC'' ''DESC'' ''DESC'' = ''title DESC''"
  by code_simp+

lemma example_render:
  "EvaluateQuery (f\<lparr>Filter := Some example_chain, OrderBy := Some ''title DESC'',
                    Top := Some 100, Skip := Some 10\<rparr>) =
   Inr (''WHERE rate<100 AND genre='' @ [CHR 0x27] @ ''Thriller'' @ [CHR 0x27] @ ''  '' @
        [CHR 0x0A] @ ''ORDER BY title DESC'' @ [CHR 0x0A] @ ''OFFSET 10'' @ [CHR 0x0A] @ ''LIMIT 100'')"
proof -
  have "Itoa 10 = ''10''" "Itoa 100 = ''100''" by code_simp+
  then show ?thesis
    by (simp add: EvaluateQuery_def example_chain_def eval_node_def)
qed

lemma example_parse:
  assumes "iterates (map_of rate_genre_title) it"
  shows "parseFilter it example_query (map_of rate_genre_title) = Inr (Some example_chain)"
    and "parseOrderBy it example_query (map_of rate_genre_title) = Inr (Some ''title DESC'')"
proof -
  have d: "distinct (map fst rate_genre_title)" by (simp add: rate_genre_title_def)
  have w: "iterates (map_of rate_genre_title) (written_order rate_genre_title)"
    using d by (rule iterates_written_order)
  have v: "visits (map_of rate_genre_title) (filter_fields it)"
    "visits (map_of rate_genre_title) (order_fields it)"
    "visits (map_of rate_genre_title) (replace_fields it)"
    "visits sortMap (replace_sorts it)"
    using assms by (simp_all add: iterates_def)
  have "list_all ws_free (keys_and_values (filter_fields it))"
    using v(1) d by (rule fields_ws_free) (simp add: rate_genre_title_def keys_and_values_def ws_free_def)
  from parseFilter_iteration[OF assms w this] example_filter_written
  show "parseFilter it example_query (map_of rate_genre_title) = Inr (Some example_chain)" by simp
  have "prefix_free (keys_and_values (order_fields it))"
    using v(2) d by (rule fields_prefix_free) (simp add: rate_genre_title_def keys_and_values_def prefix_free_def)
  from same_ReplaceAllLiteralString[OF orderby_pattern_iteration[OF assms w this]] example_orderby_valid
  have valid: "TrimSpace (ReplaceAllLiteralString
      (orderby_pattern (keys_and_values (order_fields it)) (values_and_keys (order_sorts it)))
      ''Title desc'' []) = []" by simp
  have fs: "set (replace_fields it) = set rate_genre_title"
    using v(3) d by (rule visits_ref_set)
  have "replace_each (replace_fields it) ''Title desc'' = ''title desc''"
    by (rule replace_each_one[of "''Title''" "''title''"])
      (auto simp: fs rate_genre_title_def example_field_replacements)
  moreover have ss: "set (replace_sorts it) = set [(''asc'', ''ASC''), (''desc'', ''DESC''),
      (''ASC'', ''ASC''), (''DESC'', ''DESC'')]"
    using sorts_of_iteration[OF v(4)] by (rule mset_eq_setD)
  have "replace_each (replace_sorts it) ''title desc'' = ''title DESC''"
    by (rule replace_each_one[of "''desc''" "''DESC''"])
      (auto simp: ss example_sort_replacements)
  ultimately show "parseOrderBy it example_query (map_of rate_genre_title) = Inr (Some ''title DESC'')"
    using valid by (simp add: parseOrderBy_def example_options Let_def)
qed

text \<open>
  C5, as amended. The claim: the example renders with one space between the last predicate
  and the newline. The code's single format \<open>"%v%v%v %v "\<close> writes a space, the
  conjunction and a space after every node, so the last node, whose conjunction is empty,
  is followed by two spaces; this holds in every order of iteration.
\<close>

theorem example_round_trip:
  assumes "iterates (fst (getStructFieldData rate_genre_title_schema)) it"
  shows "fst (ParseURL it f example_query rate_genre_title_schema) = None \<and>
         EvaluateQuery (snd (ParseURL it f example_query rate_genre_title_schema)) =
           Inr (''WHERE rate<100 AND genre='' @ [CHR 0x27] @ ''Thriller'' @ [CHR 0x27] @ ''  '' @
                [CHR 0x0A] @ ''ORDER BY title DESC'' @ [CHR 0x0A] @ ''OFFSET 10'' @ [CHR 0x0A] @
                ''LIMIT 100'')"
proof -
  from assms have "iterates (map_of rate_genre_title) it" by (simp add: schema_field_map)
  from example_parse[OF this]
  have "ParseURL it f example_query rate_genre_title_schema =
        (None, f\<lparr>Filter := Some example_chain, OrderBy := Some ''title DESC'',
                  Top := Some 100, Skip := Some 10\<rparr>)"
    by (simp add: ParseURL_def schema_field_map example_options)
  then show ?thesis by (simp add: example_render)
qed

lemma example_iterates:
  "iterates (fst (getStructFieldData rate_genre_title_schema)) (written_order rate_genre_title)"
  unfolding schema_field_map fst_conv
  by (rule iterates_written_order) (simp add: rate_genre_title_def)

theorem example_round_trip_witness:
  "iterates (fst (getStructFieldData rate_genre_title_schema)) (written_order rate_genre_title) \<and>
   fst (ParseURL (written_order rate_genre_title) empty_filter example_query
          rate_genre_title_schema) = None \<and>
   EvaluateQuery (snd (ParseURL (written_order rate_genre_title) empty_filter example_query
                         rate_genre_title_schema)) =
     Inr (''WHERE rate<100 AND genre='' @ [CHR 0x27] @ ''Thriller'' @ [CHR 0x27] @ ''  '' @
          [CHR 0x0A] @ ''ORDER BY title DESC'' @ [CHR 0x0A] @ ''OFFSET 10'' @ [CHR 0x0A] @
          ''LIMIT 100'')"
  by (rule conjI[OF example_iterates example_round_trip[OF example_iterates]])

text \<open>C5 as stated, with one space before the newline, fails.\<close>

theorem example_one_space_counterexample:
  "iterates (fst (getStructFieldData rate_genre_title_schema)) (written_order rate_genre_title) \<and>
   EvaluateQuery (snd (ParseURL (written_order rate_genre_title) empty_filter example_query
                         rate_genre_title_schema)) \<noteq>
     Inr (''WHERE rate<100 AND genre='' @ [CHR 0x27] @ ''Thriller'' @ [CHR 0x27] @ '' '' @
          [CHR 0x0A] @ ''ORDER BY title DESC'' @ [CHR 0x0A] @ ''OFFSET 10'' @ [CHR 0x0A] @
          ''LIMIT 100'')"
proof -
  have "ParseURL (written_order rate_genre_title) empty_filter example_query rate_genre_title_schema =
        (None, empty_filter\<lparr>Filter := Some example_chain, OrderBy := Some ''title DESC'',
                  Top := Some 100, Skip := Some 10\<rparr>)"
    by code_simp
  then show ?thesis using example_iterates by (simp add: example_render)
qed

subsection \<open>Dependence on the order of iteration\<close>

lemma Book_field_map: "getStructFieldData Book = (map_of (rev book_fields), None)"
  by (simp add: Book_def book_fields_def lower_first_def)

lemma book_fields_rev: "map_of (rev book_fields) = map_of book_fields"
  by (subst map_of_inject_set) (auto simp: book_fields_def)

lemma Book_iterates:
  "iterates (fst (getStructFieldData Book)) (written_order book_fields)"
  "iterates (fst (getStructFieldData Book)) (written_order (rev book_fields))"
proof -
  show "iterates (fst (getStructFieldData Book)) (written_order (rev book_fields))"
    unfolding Book_field_map fst_conv
    by (rule iterates_written_order) (simp add: book_fields_def)
  show "iterates (fst (getStructFieldData Book)) (written_order book_fields)"
    unfolding Book_field_map fst_conv book_fields_rev
    by (rule iterates_written_order) (simp add: book_fields_def)
qed

lemma orderby_AuthorID:
  "parseOrderBy (written_order book_fields) ''$orderby=AuthorID'' (map_of (rev book_fields)) =
     Inr (Some ''Authorid'')"
  "parseOrderBy (written_order (rev book_fields)) ''$orderby=AuthorID'' (map_of (rev book_fields)) =
     Inr (Some ''author_id'')"
  by code_simp+

lemma only_orderby_AuthorID:
  "parseQueryOption ''$orderby=AuthorID'' filter_opt = []"
  "parseQueryOption ''$orderby=AuthorID'' top_opt = []"
  "parseQueryOption ''$orderby=AuthorID'' skip_opt = []"
  by code_simp+

lemma rate_ratelimit_rev: "map_of (rev rate_ratelimit) = map_of rate_ratelimit"
  by (subst map_of_inject_set) (auto simp: rate_ratelimit_def)

lemma rate_ratelimit_iterates:
  "iterates (map_of rate_ratelimit) (written_order rate_ratelimit)"
  "iterates (map_of rate_ratelimit) (written_order (rev rate_ratelimit))"
proof -
  show "iterates (map_of rate_ratelimit) (written_order rate_ratelimit)"
    by (rule iterates_written_order) (simp add: rate_ratelimit_def)
  have "iterates (map_of (rev rate_ratelimit)) (written_order (rev rate_ratelimit))"
    by (rule iterates_written_order) (simp add: rate_ratelimit_def)
  then show "iterates (map_of rate_ratelimit) (written_order (rev rate_ratelimit))"
    by (simp only: rate_ratelimit_rev)
qed

lemma orderby_RateLimit:
  "parseOrderBy (written_order rate_ratelimit) ''$orderby=RateLimit desc'' (map_of rate_ratelimit) =
     Inl ErrInvalidQuery"
  "parseOrderBy (written_order (rev rate_ratelimit)) ''$orderby=RateLimit desc''
     (map_of rate_ratelimit) = Inr (Some ''rate_limit DESC'')"
  by code_simp+

text \<open>
  C7. The claim: two runs on the same query and schema give equal results. In the code
  the loops over the field map run in an order Go leaves unspecified, and the result
  depends on it: for the repository's \<open>Book\<close> and the query \<open>$orderby=AuthorID\<close>, replacing
  \<open>ID\<close> before \<open>AuthorID\<close> gives the clause \<open>Authorid\<close>, the other order
  \<open>author_id\<close>. With the field names \<open>Rate\<close> and \<open>RateLimit\<close> the order decides
  between an error and a clause for \<open>$orderby=RateLimit desc\<close>: the pattern of
  \<open>parseOrderBy\<close> requires nothing after the field, so when \<open>Rate\<close> comes first the
  match stops after it and \<open>Limit desc\<close> is left over.
\<close>

theorem orderby_depends_on_iteration:
  "iterates (fst (getStructFieldData Book)) (written_order book_fields) \<and>
   iterates (fst (getStructFieldData Book)) (written_order (rev book_fields)) \<and>
   ParseURL (written_order book_fields) f ''$orderby=AuthorID'' Book =
     (None, f\<lparr>Filter := None, OrderBy := Some ''Authorid'', Top := None, Skip := None\<rparr>) \<and>
   ParseURL (written_order (rev book_fields)) f ''$orderby=AuthorID'' Book =
     (None, f\<lparr>Filter := None, OrderBy := Some ''author_id'', Top := None, Skip := None\<rparr>) \<and>
   iterates (map_of rate_ratelimit) (written_order rate_ratelimit) \<and>
   iterates (map_of rate_ratelimit) (written_order (rev rate_ratelimit)) \<and>
   parseOrderBy (written_order rate_ratelimit) ''$orderby=RateLimit desc'' (map_of rate_ratelimit) =
     Inl ErrInvalidQuery \<and>
   parseOrderBy (written_order (rev rate_ratelimit)) ''$orderby=RateLimit desc''
     (map_of rate_ratelimit) = Inr (Some ''rate_limit DESC'')"
proof -
  have "ParseURL (written_order book_fields) f ''$orderby=AuthorID'' Book =
     (None, f\<lparr>Filter := None, OrderBy := Some ''Authorid'', Top := None, Skip := None\<rparr>)"
    "ParseURL (written_order (rev book_fields)) f ''$orderby=AuthorID'' Book =
     (None, f\<lparr>Filter := None, OrderBy := Some ''author_id'', Top := None, Skip := None\<rparr>)"
    by (simp_all add: ParseURL_def Book_field_map parseFilter_def parseTop_def
        parseSkip_def only_orderby_AuthorID orderby_AuthorID)
  with Book_iterates rate_ratelimit_iterates orderby_RateLimit show ?thesis by blast
qed

subsection \<open>The values of \<open>$top\<close> and \<open>$skip\<close>\<close>












subsection \<open>Field names of which one is a prefix of another\<close>

lemma gt_5_tail:
  "first_match (clause_tail [''eq'', ''ne'', ''gt'', ''lt'', ''lte'', ''gte''] [''and'', ''or''])
     ('' gt 5'', [(1, k)]) = Some ([], [(3, ''5''), (2, ''gt''), (1, k)])"
  by code_simp

text \<open>
  C3, as amended. With any field map of plain names, in every order of iteration, the
  filter \<open>long gt 5\<close> on a field name \<open>long\<close> parses to one node that carries the column
  of \<open>long\<close>, also when a shorter field name \<open>short\<close> is a prefix of it. The pattern lists
  the names in the order of iteration and does not sort them; the white space it requires
  after the field makes the match fall back from the shorter name to the longer one.
\<close>

theorem longer_field_name_parses:
  assumes "iterates fieldMap it"
    and "list_all plain (keys_and_values (filter_fields it))"
    and "fieldMap short = Some c1" "fieldMap long = Some c2" "strict_prefix short long"
  shows "parseFilter it (''$filter='' @ long @ '' gt 5'') fieldMap =
         Inr (Some \<lparr>Head = Some (FilterNode c2 ''>'' [] ''5'' None)\<rparr>)"
proof -
  have "parseFilter it (''$filter='' @ long @ '' gt 5'') fieldMap =
        Inr (Some \<lparr>Head = Some (match_node fieldMap [(3, ''5''), (2, ''gt''), (1, long)])\<rparr>)"
    by (rule single_clause[OF assms(1,2,4) _ _ _ gt_5_tail]) simp_all
  moreover have "match_node fieldMap [(3, ''5''), (2, ''gt''), (1, long)] =
                 FilterNode c2 ''>'' [] ''5'' None"
    by (simp add: match_node_def submatch_def index_def assms(4) operMap_def conjMap_def)
  ultimately show ?thesis by simp
qed

lemma rate_ratelimit_plain:
  "iterates (map_of rate_ratelimit) (written_order rate_ratelimit)"
  "list_all plain (keys_and_values (filter_fields (written_order rate_ratelimit)))"
  "map_of rate_ratelimit ''Rate'' = Some ''rate''"
  "map_of rate_ratelimit ''RateLimit'' = Some ''rate_limit''"
  "strict_prefix ''Rate'' ''RateLimit''"
proof -
  show "iterates (map_of rate_ratelimit) (written_order rate_ratelimit)"
    by (rule iterates_written_order) (simp add: rate_ratelimit_def)
  show "list_all plain (keys_and_values (filter_fields (written_order rate_ratelimit)))"
    by code_simp
  show "map_of rate_ratelimit ''Rate'' = Some ''rate''"
    "map_of rate_ratelimit ''RateLimit'' = Some ''rate_limit''"
    by (simp_all add: rate_ratelimit_def)
  show "strict_prefix ''Rate'' ''RateLimit''" by (simp add: strict_prefix_def)
qed

theorem longer_field_name_parses_witness:
  "iterates (map_of rate_ratelimit) (written_order rate_ratelimit) \<and>
   list_all plain (keys_and_values (filter_fields (written_order rate_ratelimit))) \<and>
   map_of rate_ratelimit ''Rate'' = Some ''rate'' \<and>
   map_of rate_ratelimit ''RateLimit'' = Some ''rate_limit'' \<and>
   strict_prefix ''Rate'' ''RateLimit'' \<and>
   parseFilter (written_order rate_ratelimit) (''$filter='' @ ''RateLimit'' @ '' gt 5'')
     (map_of rate_ratelimit) =
   Inr (Some \<lparr>Head = Some (FilterNode ''rate_limit'' ''>'' [] ''5'' None)\<rparr>)"
  using rate_ratelimit_plain longer_field_name_parses[OF rate_ratelimit_plain]
  by blast

text \<open>
  C3 as stated fails in its last part: in a possible order of iteration the alternation
  lists \<open>Rate\<close> before \<open>RateLimit\<close>, and at the start of \<open>RateLimit gt 5\<close> it tries (and
  matches) the shorter name first.
\<close>

theorem shorter_name_first_counterexample:
  "iterates (map_of rate_ratelimit) (written_order rate_ratelimit) \<and>
   keys_and_values (filter_fields (written_order rate_ratelimit)) =
     [''Rate'', ''rate'', ''RateLimit'', ''rate_limit''] \<and>
   map fst (backtrack (alts (keys_and_values (filter_fields (written_order rate_ratelimit))))
              (''RateLimit gt 5'', [])) = [''Limit gt 5'', '' gt 5'']"
proof -
  have "keys_and_values (filter_fields (written_order rate_ratelimit)) =
          [''Rate'', ''rate'', ''RateLimit'', ''rate_limit'']"
    "map fst (backtrack (alts (keys_and_values (filter_fields (written_order rate_ratelimit))))
              (''RateLimit gt 5'', [])) = [''Limit gt 5'', '' gt 5'']"
    by code_simp+
  with rate_ratelimit_plain(1) show ?thesis by blast
qed

subsection \<open>A conjunction after the last clause\<close>

lemma conjunction_tails:
  "list_all (\<lambda>(op, cj).
      first_match (clause_tail [''eq'', ''ne'', ''gt'', ''lt'', ''lte'', ''gte''] [''and'', ''or''])
        ('' '' @ op @ '' 100 '' @ cj, [(1, k)]) =
      Some ([], [(4, cj), (3, ''100''), (2, op), (1, k)]))
     (List.product [''eq'', ''ne'', ''gt'', ''lt'', ''lte'', ''gte''] [''and'', ''or''])"
  by code_simp

text \<open>
  C4, as amended. A filter that ends with a conjunction keyword after its last clause is
  accepted: for any field map of plain names, in every order of iteration, any field name
  \<open>k\<close>, any operator keyword \<open>op\<close> and either conjunction keyword \<open>cj\<close>, the filter
  \<open>k op 100 cj\<close> parses to one node, which carries the conjunction. The pattern makes the
  conjunction optional after every clause and requires nothing after it.
\<close>

theorem trailing_conjunction_accepted:
  assumes "iterates fieldMap it"
    and "list_all plain (keys_and_values (filter_fields it))"
    and "fieldMap k = Some col" "operMap op = Some symb" "conjMap cj = Some CJ"
  shows "parseFilter it (''$filter='' @ k @ '' '' @ op @ '' 100 '' @ cj) fieldMap =
         Inr (Some \<lparr>Head = Some (FilterNode col symb CJ ''100'' None)\<rparr>)"
proof -
  from assms(4) have op: "op \<in> set [''eq'', ''ne'', ''gt'', ''lt'', ''lte'', ''gte'']"
    by (auto simp: operMap_def split: if_splits)
  from assms(5) have cj: "cj \<in> set [''and'', ''or'']"
    by (auto simp: conjMap_def split: if_splits)
  from op cj have "(op, cj) \<in> set (List.product [''eq'', ''ne'', ''gt'', ''lt'', ''lte'', ''gte'']
      [''and'', ''or''])" unfolding set_product by blast
  with conjunction_tails[of k]
  have tail: "first_match (clause_tail [''eq'', ''ne'', ''gt'', ''lt'', ''lte'', ''gte''] [''and'', ''or''])
        ('' '' @ op @ '' 100 '' @ cj, [(1, k)]) =
      Some ([], [(4, cj), (3, ''100''), (2, op), (1, k)])"
    unfolding list_all_iff by blast
  have amp: "list_all (in_class NotAmpDollar) ('' '' @ op @ '' 100 '' @ cj)"
    using op cj by auto
  have "parseFilter it (''$filter='' @ k @ ('' '' @ op @ '' 100 '' @ cj)) fieldMap =
        Inr (Some \<lparr>Head = Some (match_node fieldMap [(4, cj), (3, ''100''), (2, op), (1, k)])\<rparr>)"
    by (rule single_clause[OF assms(1,2,3) _ _ amp tail]) simp_all
  moreover have "match_node fieldMap [(4, cj), (3, ''100''), (2, op), (1, k)] =
                 FilterNode col symb CJ ''100'' None"
    by (simp add: match_node_def submatch_def index_def assms(3,4,5))
  ultimately show ?thesis by simp
qed

lemma rate_genre_title_plain:
  "iterates (map_of rate_genre_title) (written_order rate_genre_title)"
  "list_all plain (keys_and_values (filter_fields (written_order rate_genre_title)))"
  "map_of rate_genre_title ''Rate'' = Some ''rate''"
  "operMap ''lt'' = Some ''<''" "conjMap ''and'' = Some ''AND''"
proof -
  show "iterates (map_of rate_genre_title) (written_order rate_genre_title)"
    by (rule iterates_written_order) (simp add: rate_genre_title_def)
  show "list_all plain (keys_and_values (filter_fields (written_order rate_genre_title)))"
    by code_simp
  show "map_of rate_genre_title ''Rate'' = Some ''rate''"
    "operMap ''lt'' = Some ''<''" "conjMap ''and'' = Some ''AND''"
    by (simp_all add: rate_genre_title_def operMap_def conjMap_def)
qed

theorem trailing_conjunction_accepted_witness:
  "iterates (map_of rate_genre_title) (written_order rate_genre_title) \<and>
   list_all plain (keys_and_values (filter_fields (written_order rate_genre_title))) \<and>
   map_of rate_genre_title ''Rate'' = Some ''rate'' \<and>
   operMap ''lt'' = Some ''<'' \<and> conjMap ''and'' = Some ''AND'' \<and>
   parseFilter (written_order rate_genre_title)
     (''$filter='' @ ''Rate'' @ '' '' @ ''lt'' @ '' 100 '' @ ''and'') (map_of rate_genre_title) =
   Inr (Some \<lparr>Head = Some (FilterNode ''rate'' ''<'' ''AND'' ''100'' None)\<rparr>)"
  using rate_genre_title_plain trailing_conjunction_accepted[OF rate_genre_title_plain]
  by blast

text \<open>C4 as stated fails: \<open>Rate lt 100 and\<close> is not rejected.\<close>

theorem trailing_conjunction_counterexample:
  "iterates (map_of rate_genre_title) (written_order rate_genre_title) \<and>
   parseFilter (written_order rate_genre_title) ''$filter=Rate lt 100 and''
     (map_of rate_genre_title) \<noteq> Inl ErrInvalidQuery \<and>
   parseFilter (written_order rate_genre_title) ''$filter=Rate lt 100 and''
     (map_of rate_genre_title) =
   Inr (Some \<lparr>Head = Some (FilterNode ''rate'' ''<'' ''AND'' ''100'' None)\<rparr>)"
proof -
  have "parseFilter (written_order rate_genre_title) ''$filter=Rate lt 100 and''
     (map_of rate_genre_title) =
   Inr (Some \<lparr>Head = Some (FilterNode ''rate'' ''<'' ''AND'' ''100'' None)\<rparr>)"
    by code_simp
  with rate_genre_title_plain(1) show ?thesis by simp
qed

subsection \<open>The matches of a pattern in its parts\<close>














subsection \<open>The clauses of a filter\<close>






text \<open>The matches that \<open>allMatches\<close> returns come from left to right and do not overlap.\<close>

lemma allMatches_ordered:
  "sorted_wrt (\<lambda>m m'. fst (snd m) \<le> fst m') (allMatches re s pos prev) \<and>
   list_all (\<lambda>m. pos \<le> fst m) (allMatches re s pos prev)"
proof (induction "Suc (length s) - pos" arbitrary: pos prev rule: less_induct)
  case less
  show ?case
  proof (cases "doExecute re s pos")
    case None
    then show ?thesis by (simp add: allMatches_None)
  next
    case (Some m)
    obtain a0 a1 c where m: "m = (a0, a1, c)" by (cases m)
    with Some have d: "doExecute re s pos = Some (a0, a1, c)" by simp
    from doExecute_bounds[OF d] have b: "pos \<le> a0" "a0 \<le> a1" "a1 \<le> length s" by simp_all
    then have "pos \<le> a1" by simp
    from less[OF next_pos_less[OF this b(3)], of "int a1"]
    have ih: "sorted_wrt (\<lambda>m m'. fst (snd m) \<le> fst m') (allMatches re s (next_pos s pos a1) (int a1))"
      "list_all (\<lambda>m. next_pos s pos a1 \<le> fst m) (allMatches re s (next_pos s pos a1) (int a1))"
      by simp_all
    have n: "a1 \<le> next_pos s pos a1" "pos \<le> next_pos s pos a1"
      using b by (auto simp: next_pos_def)
    from ih(2) n have "list_all (\<lambda>m. a1 \<le> fst m) (allMatches re s (next_pos s pos a1) (int a1))"
      "list_all (\<lambda>m. pos \<le> fst m) (allMatches re s (next_pos s pos a1) (int a1))"
      by (auto simp: list_all_iff)
    with ih(1) b(1) show ?thesis
      unfolding allMatches_Some[OF d] by (auto simp: list_all_iff)
  qed
qed

subsection \<open>The chain of a parsed filter\<close>














text \<open>
  The two clauses of that text and their nodes: the first clause has no conjunction
  keyword, the second ends with \<open>and\<close>.
\<close>

lemma two_clauses_read:
  "parseQueryOption ''$filter=Rate lt 100 Rate gt 5 and'' filter_opt =
     clause_text \<lparr>field_name = ''Rate'', space1 = '' '', oper_word = ''lt'', space2 = '' '',
                  value_text = ''100'', space3 = '' '', conj_words = [], space4 = []\<rparr> @
     clause_text \<lparr>field_name = ''Rate'', space1 = '' '', oper_word = ''gt'', space2 = '' '',
                  value_text = ''5'', space3 = '' '', conj_words = [''and''], space4 = []\<rparr>"
  "is_clause (dom (map_of rate_genre_title) \<union> ran (map_of rate_genre_title))
     {''eq'', ''ne'', ''gt'', ''lt'', ''lte'', ''gte''} {''and'', ''or''}
     \<lparr>field_name = ''Rate'', space1 = '' '', oper_word = ''lt'', space2 = '' '',
      value_text = ''100'', space3 = '' '', conj_words = [], space4 = []\<rparr>"
  "is_clause (dom (map_of rate_genre_title) \<union> ran (map_of rate_genre_title))
     {''eq'', ''ne'', ''gt'', ''lt'', ''lte'', ''gte''} {''and'', ''or''}
     \<lparr>field_name = ''Rate'', space1 = '' '', oper_word = ''gt'', space2 = '' '',
      value_text = ''5'', space3 = '' '', conj_words = [''and''], space4 = []\<rparr>"
  "clause_node (map_of rate_genre_title)
     \<lparr>field_name = ''Rate'', space1 = '' '', oper_word = ''lt'', space2 = '' '',
      value_text = ''100'', space3 = '' '', conj_words = [], space4 = []\<rparr> =
   FilterNode ''rate'' ''<'' [] ''100'' None"
  "clause_node (map_of rate_genre_title)
     \<lparr>field_name = ''Rate'', space1 = '' '', oper_word = ''gt'', space2 = '' '',
      value_text = ''5'', space3 = '' '', conj_words = [''and''], space4 = []\<rparr> =
   FilterNode ''rate'' ''>'' ''AND'' ''5'' None"
proof -
  show "parseQueryOption ''$filter=Rate lt 100 Rate gt 5 and'' filter_opt =
     clause_text \<lparr>field_name = ''Rate'', space1 = '' '', oper_word = ''lt'', space2 = '' '',
                  value_text = ''100'', space3 = '' '', conj_words = [], space4 = []\<rparr> @
     clause_text \<lparr>field_name = ''Rate'', space1 = '' '', oper_word = ''gt'', space2 = '' '',
                  value_text = ''5'', space3 = '' '', conj_words = [''and''], space4 = []\<rparr>"
    by code_simp
  have "''Rate'' \<in> dom (map_of rate_genre_title)" by (simp add: rate_genre_title_def)
  then have f: "''Rate'' \<in> alternatives (dom (map_of rate_genre_title) \<union> ran (map_of rate_genre_title))"
    unfolding alternatives_def by auto
  show "is_clause (dom (map_of rate_genre_title) \<union> ran (map_of rate_genre_title))
     {''eq'', ''ne'', ''gt'', ''lt'', ''lte'', ''gte''} {''and'', ''or''}
     \<lparr>field_name = ''Rate'', space1 = '' '', oper_word = ''lt'', space2 = '' '',
      value_text = ''100'', space3 = '' '', conj_words = [], space4 = []\<rparr>"
    using f by (simp add: is_clause_def white_def literal_def alternatives_def)
  show "is_clause (dom (map_of rate_genre_title) \<union> ran (map_of rate_genre_title))
     {''eq'', ''ne'', ''gt'', ''lt'', ''lte'', ''gte''} {''and'', ''or''}
     \<lparr>field_name = ''Rate'', space1 = '' '', oper_word = ''gt'', space2 = '' '',
      value_text = ''5'', space3 = '' '', conj_words = [''and''], space4 = []\<rparr>"
    using f by (simp add: is_clause_def white_def literal_def alternatives_def)
  show "clause_node (map_of rate_genre_title)
     \<lparr>field_name = ''Rate'', space1 = '' '', oper_word = ''lt'', space2 = '' '',
      value_text = ''100'', space3 = '' '', conj_words = [], space4 = []\<rparr> =
   FilterNode ''rate'' ''<'' [] ''100'' None"
    by (simp add: clause_node_def index_def rate_genre_title_def operMap_def)
  show "clause_node (map_of rate_genre_title)
     \<lparr>field_name = ''Rate'', space1 = '' '', oper_word = ''gt'', space2 = '' '',
      value_text = ''5'', space3 = '' '', conj_words = [''and''], space4 = []\<rparr> =
   FilterNode ''rate'' ''>'' ''AND'' ''5'' None"
    by (simp add: clause_node_def index_def rate_genre_title_def operMap_def conjMap_def)
qed
end
